theory Spec2Isabelle
  imports Main
begin

section \<open>Data model\<close>

text \<open>
  The notebook \<^verbatim>\<open>large_graphs.ipynb\<close> builds computation dependencies for minibatch
  training of graph neural networks.  Node ids are the dense integers \<open>0..N-1\<close>, so they
  are natural numbers here.  A graph is its node count and its directed edge list in
  edge-id order; the position of an edge in the list is its edge id.
\<close>

datatype error = OutOfRange | InvalidFanoutConfig | IndexError | ValueError | RuntimeError

record graph =
  num_nodes :: nat
  edge_list :: "(nat \<times> nat) list"

text \<open>
  A block: the global ids of the source side, the global ids of the destination side, and
  the edges as pairs (local source index, local destination index).
\<close>

record block =
  src_global_ids :: "nat list"
  dst_global_ids :: "nat list"
  block_edges :: "(nat \<times> nat) list"

text \<open>
  Modelled from the spec: the random source of section 6 (the random generator inside DGL,
  which is not part of the notebook), injectable and reproducible.  It is a tape of numbers;
  a draw takes the next number, and a draw from an exhausted tape yields 0.
\<close>

type_synonym rng = "nat list"

fun next_draw :: "rng \<Rightarrow> nat \<times> rng" where
  "next_draw [] = (0, [])"
| "next_draw (x # r) = (x, r)"

section \<open>Graph store\<close>

text \<open>
  Modelled from the spec: the Graph Store of section 4.1 (the adjacency index inside the
  DGL graph object, which is not part of the notebook).  \<open>neighbors_of\<close> returns the
  incident (incoming) edges of a node as pairs (neighbor id, edge id), in edge-id order, and
  fails with \<open>OutOfRange\<close> if the node id is not below the node count.
\<close>

definition neighbors_of :: "graph \<Rightarrow> nat \<Rightarrow> error + (nat \<times> nat) list" where
  "neighbors_of g v =
     (if num_nodes g \<le> v then Inl OutOfRange
      else Inr (map (\<lambda>(i, e). (fst e, i))
                 (filter (\<lambda>(i, e). snd e = v) (enumerate 0 (edge_list g)))))"

section \<open>Neighbor selector\<close>

text \<open>
  Modelled from the spec: the Full variant of the Neighbor Selector of section 4.2 (inside
  \<^verbatim>\<open>dgl.in_subgraph\<close>, a library call whose code is not part of the notebook).  It returns
  all incident edges unchanged.
\<close>

definition select_full :: "(nat \<times> nat) list \<Rightarrow> (nat \<times> nat) list" where
  "select_full inc = inc"

text \<open>
  Modelled from the spec: drawing \<open>k\<close> distinct elements without replacement with the random
  source (section 4.2; inside \<^verbatim>\<open>dgl.sampling.sample_neighbors\<close>).  Each draw picks a position
  among the elements that are left and removes the element from them.
\<close>

fun draw :: "nat \<Rightarrow> 'a list \<Rightarrow> rng \<Rightarrow> 'a list \<times> rng" where
  "draw 0 xs r = ([], r)"
| "draw (Suc k) xs r =
     (if xs = [] then ([], r)
      else (let (x, r1) = next_draw r;
                i = x mod length xs;
                (ys, r2) = draw k (take i xs @ drop (Suc i) xs) r1
            in (xs ! i # ys, r2)))"

text \<open>
  Modelled from the spec: the FixedFanout(k) variant of the Neighbor Selector of section 4.2
  (inside \<^verbatim>\<open>dgl.sampling.sample_neighbors\<close>).  If the incident-edge count is at most \<open>k\<close> it
  returns all incident edges, otherwise it draws \<open>k\<close> distinct edges.  The fanout is a Python
  integer; the spec says nothing on a negative one, for which no edge is drawn here.
\<close>

definition select_fanout :: "int \<Rightarrow> (nat \<times> nat) list \<Rightarrow> rng \<Rightarrow> (nat \<times> nat) list \<times> rng" where
  "select_fanout k inc r =
     (if int (length inc) \<le> k then (inc, r) else draw (nat k) inc r)"

section \<open>Block builder\<close>

text \<open>
  Modelled from the spec: the id bookkeeping of the Block Builder of section 4.3 (inside
  \<^verbatim>\<open>dgl.to_block\<close>, a library call whose code is not part of the notebook).
  \<open>add_ids acc xs\<close> appends to \<open>acc\<close> every id of \<open>xs\<close> that is not yet present, in
  first-seen order, each exactly once.
\<close>

fun add_ids :: "nat list \<Rightarrow> nat list \<Rightarrow> nat list" where
  "add_ids acc [] = acc"
| "add_ids acc (x # xs) = add_ids (if x \<in> set acc then acc else acc @ [x]) xs"

text \<open>
  Modelled from the spec: the deduplication of the seeds in step 1 of the Block Builder of
  section 4.3, which keeps the order of first occurrence.
\<close>

definition dedup :: "nat list \<Rightarrow> nat list" where
  "dedup xs = add_ids [] xs"

text \<open>
  Modelled from the spec: the local-id lookup of step 4 of the Block Builder of section 4.3,
  from a global id to its local index: the position of the id in the id list.
\<close>

fun index_of :: "nat list \<Rightarrow> nat \<Rightarrow> nat" where
  "index_of [] x = 0"
| "index_of (y # ys) x = (if x = y then 0 else Suc (index_of ys x))"

text \<open>
  Modelled from the spec: step 1 of the Block Builder of section 4.3 with the Full selector,
  for seeds that are already deduplicated: for every seed in order, gather the incident edges
  from the Graph Store and keep all of them, as edges (source id, destination id) in global
  ids.
\<close>

fun gather_full :: "graph \<Rightarrow> nat list \<Rightarrow> error + (nat \<times> nat) list" where
  "gather_full g [] = Inr []"
| "gather_full g (v # vs) =
     (case neighbors_of g v of
        Inl e \<Rightarrow> Inl e
      | Inr inc \<Rightarrow>
          (case gather_full g vs of
             Inl e \<Rightarrow> Inl e
           | Inr es \<Rightarrow> Inr (map (\<lambda>(u, eid). (u, v)) (select_full inc) @ es)))"

text \<open>
  Modelled from the spec: \<^verbatim>\<open>dgl.in_subgraph(g, seeds)\<close>, a library call whose code is not
  part of the notebook, as step 1 of the Block Builder of section 4.3 with the Full selector.
  The sampled graph is the list of the kept edges.
\<close>

definition in_subgraph :: "graph \<Rightarrow> nat list \<Rightarrow> error + (nat \<times> nat) list" where
  "in_subgraph g seeds = gather_full g (dedup seeds)"

text \<open>
  Modelled from the spec: step 1 of the Block Builder of section 4.3 with the FixedFanout(k)
  selector, for seeds that are already deduplicated.  The random source is threaded through
  the seeds in order.
\<close>

fun gather_fanout ::
  "graph \<Rightarrow> int \<Rightarrow> nat list \<Rightarrow> rng \<Rightarrow> error + ((nat \<times> nat) list \<times> rng)" where
  "gather_fanout g k [] r = Inr ([], r)"
| "gather_fanout g k (v # vs) r =
     (case neighbors_of g v of
        Inl e \<Rightarrow> Inl e
      | Inr inc \<Rightarrow>
          (case select_fanout k inc r of
             (chosen, r1) \<Rightarrow>
               (case gather_fanout g k vs r1 of
                  Inl e \<Rightarrow> Inl e
                | Inr (es, r2) \<Rightarrow> Inr (map (\<lambda>(u, eid). (u, v)) chosen @ es, r2))))"

text \<open>
  Modelled from the spec: \<^verbatim>\<open>dgl.sampling.sample_neighbors(g, seeds, fanout)\<close>, a library call
  whose code is not part of the notebook, as step 1 of the Block Builder of section 4.3 with
  the FixedFanout(fanout) selector.  It returns the sampled graph and the random source
  after the draws.
\<close>

definition sample_neighbors ::
  "graph \<Rightarrow> nat list \<Rightarrow> int \<Rightarrow> rng \<Rightarrow> error + ((nat \<times> nat) list \<times> rng)" where
  "sample_neighbors g seeds fanout r = gather_fanout g fanout (dedup seeds) r"

text \<open>
  Modelled from the spec: \<^verbatim>\<open>dgl.to_block(sampled_graph, seeds)\<close>, a library call whose code
  is not part of the notebook, as steps 2 to 4 of the Block Builder of section 4.3.  The
  destination ids are the seeds deduplicated; the source ids are the destination ids followed
  by every further source endpoint of a selected edge in first-seen order; every selected
  edge is emitted with both endpoints mapped to local indices.
\<close>

definition to_block :: "(nat \<times> nat) list \<Rightarrow> nat list \<Rightarrow> block" where
  "to_block sampled_graph seeds =
     (let dst = dedup seeds;
          src = add_ids dst (map fst sampled_graph)
      in \<lparr> src_global_ids = src,
           dst_global_ids = dst,
           block_edges = map (\<lambda>(u, v). (index_of src u, index_of dst v)) sampled_graph \<rparr>)"

section \<open>Samplers\<close>

text \<open>
  \<^verbatim>\<open>FullNeighborBlockSampler\<close>: the object holds the graph and the number of layers;
  \<^verbatim>\<open>sample\<close> runs \<^verbatim>\<open>range(num_layers)\<close> iterations, each building a block from the current
  seeds, taking the block's source ids as the next seeds and prepending the block.
\<close>

record full_sampler =
  full_g :: graph
  num_layers :: int

definition FullNeighborBlockSampler_init :: "graph \<Rightarrow> int \<Rightarrow> full_sampler" where
  "FullNeighborBlockSampler_init g n = \<lparr> full_g = g, num_layers = n \<rparr>"

fun full_sample_loop :: "graph \<Rightarrow> nat \<Rightarrow> nat list \<Rightarrow> block list \<Rightarrow> error + block list" where
  "full_sample_loop g 0 seeds blocks = Inr blocks"
| "full_sample_loop g (Suc n) seeds blocks =
     (case in_subgraph g seeds of
        Inl e \<Rightarrow> Inl e
      | Inr sampled_graph \<Rightarrow>
          (let sampled_block = to_block sampled_graph seeds
           in full_sample_loop g n (src_global_ids sampled_block) (sampled_block # blocks)))"

definition FullNeighborBlockSampler_sample :: "full_sampler \<Rightarrow> nat list \<Rightarrow> error + block list" where
  "FullNeighborBlockSampler_sample s seeds =
     full_sample_loop (full_g s) (nat (num_layers s)) seeds []"

text \<open>
  \<^verbatim>\<open>NeighborSampler\<close>: the object holds the graph and the list of fanouts; the constructor
  stores both and checks nothing.  \<^verbatim>\<open>sample\<close> iterates over the reversed fanout list.
\<close>

record neighbor_sampler =
  nbr_g :: graph
  num_fanouts :: "int list"

definition NeighborSampler_init :: "graph \<Rightarrow> int list \<Rightarrow> error + neighbor_sampler" where
  "NeighborSampler_init g fanouts = Inr \<lparr> nbr_g = g, num_fanouts = fanouts \<rparr>"

fun neighbor_sample_loop ::
  "graph \<Rightarrow> int list \<Rightarrow> nat list \<Rightarrow> block list \<Rightarrow> rng \<Rightarrow> error + (block list \<times> rng)" where
  "neighbor_sample_loop g [] seeds blocks r = Inr (blocks, r)"
| "neighbor_sample_loop g (fanout # fanouts) seeds blocks r =
     (case sample_neighbors g seeds fanout r of
        Inl e \<Rightarrow> Inl e
      | Inr (sampled_graph, r1) \<Rightarrow>
          (let sampled_block = to_block sampled_graph seeds
           in neighbor_sample_loop g fanouts (src_global_ids sampled_block)
                (sampled_block # blocks) r1))"

definition NeighborSampler_sample ::
  "neighbor_sampler \<Rightarrow> nat list \<Rightarrow> rng \<Rightarrow> error + (block list \<times> rng)" where
  "NeighborSampler_sample s seeds r =
     neighbor_sample_loop (nbr_g s) (rev (num_fanouts s)) seeds [] r"

section \<open>The example graph of the notebook\<close>

text \<open>The undirected edge list from which the notebook builds its example graph.\<close>

definition nx_pairs :: "(nat \<times> nat) list" where
  "nx_pairs =
     [(0, 2), (0, 4), (0, 6), (0, 7), (0, 8), (0, 9), (0, 10),
      (1, 2), (1, 3), (1, 5), (2, 3), (2, 4), (2, 6), (3, 5),
      (3, 8), (4, 7), (8, 9), (8, 11), (9, 10), (9, 11)]"

text \<open>
  The neighbours of a node of the undirected graph, in the order in which the edge list
  adds them (the adjacency of \<^verbatim>\<open>nx.Graph\<close>).
\<close>

definition nx_adj :: "(nat \<times> nat) list \<Rightarrow> nat \<Rightarrow> nat list" where
  "nx_adj ps u =
     concat (map (\<lambda>(a, b). if a = u then [b] else if b = u then [a] else []) ps)"

text \<open>
  \<^verbatim>\<open>dgl.graph(nx.Graph(pairs))\<close>: the undirected edge list becomes a directed graph with both
  directions of every edge.  The nodes are enumerated in order of first appearance, and the
  edges node by node in the order of the adjacency; this is the edge order that the outputs
  printed in the notebook show.  The node count is right when the ids are \<open>0..N-1\<close>, as in
  the example.
\<close>

definition nx_to_graph :: "(nat \<times> nat) list \<Rightarrow> graph" where
  "nx_to_graph ps =
     (let nodes = dedup (concat (map (\<lambda>(a, b). [a, b]) ps))
      in \<lparr> num_nodes = length nodes,
           edge_list = concat (map (\<lambda>u. map (\<lambda>v. (u, v)) (nx_adj ps u)) nodes) \<rparr>)"

definition example_graph :: graph where
  "example_graph = nx_to_graph nx_pairs"

section \<open>Layer transform and layer-wise inference\<close>

text \<open>
  Modelled from the spec: the layer-transform collaborator of section 6,
  \<open>apply(block, src_features, dst_features)\<close>, which returns output features aligned with the
  destination nodes (DGL's \<^verbatim>\<open>SAGEConv\<close>, a library class; \<^verbatim>\<open>SAGEConvBipartite.forward\<close> in the
  notebook shows its form).  The layer sends the source feature along every edge, reduces the
  messages arriving at each destination node, and combines the result with the destination
  node's own feature.  The reduction and the combination are the parameter \<open>conv\<close>: a
  function of the node's own feature row and of the list of feature rows arriving over its
  incoming edges, in edge order.  A feature tensor is the list of its rows, and the numbers
  of rows must be the numbers of source and of destination nodes of the block.
\<close>

definition apply_layer ::
  "('a \<Rightarrow> 'a list \<Rightarrow> 'a) \<Rightarrow> block \<Rightarrow> 'a list \<Rightarrow> 'a list \<Rightarrow> error + 'a list" where
  "apply_layer conv b x_src x_dst =
     (if length x_src \<noteq> length (src_global_ids b) \<or> length x_dst \<noteq> length (dst_global_ids b)
      then Inl RuntimeError
      else Inr (map (\<lambda>j. conv (x_dst ! j)
                          (map (\<lambda>e. x_src ! fst e) (filter (\<lambda>e. snd e = j) (block_edges b))))
                 [0..<length (dst_global_ids b)]))"

text \<open>\<^verbatim>\<open>SAGENet.propagate\<close>: the destination features are the first rows of the input.\<close>

definition propagate :: "block \<Rightarrow> 'a list \<Rightarrow> ('a \<Rightarrow> 'a list \<Rightarrow> 'a) \<Rightarrow> error + 'a list" where
  "propagate b h layer =
     (let h_dst = take (length (dst_global_ids b)) h
      in apply_layer layer b h h_dst)"

record 'a SAGENet =
  convs :: "('a \<Rightarrow> 'a list \<Rightarrow> 'a) list"

text \<open>Tensor indexing \<^verbatim>\<open>h[input_node_ids]\<close>: an id beyond the rows of \<open>h\<close> is an error.\<close>

definition index_rows :: "'a list \<Rightarrow> nat list \<Rightarrow> error + 'a list" where
  "index_rows h ids =
     (if list_all (\<lambda>i. i < length h) ids then Inr (map (\<lambda>i. h ! i) ids) else Inl IndexError)"

text \<open>\<^verbatim>\<open>range(0, n, step)\<close>: step 0 raises, a negative step gives the empty range.\<close>

definition py_range0 :: "nat \<Rightarrow> int \<Rightarrow> error + nat list" where
  "py_range0 n step =
     (if step = 0 then Inl ValueError
      else if step < 0 then Inr []
      else Inr (map (\<lambda>i. i * nat step) [0..<(n + nat step - 1) div nat step]))"

text \<open>
  \<^verbatim>\<open>inference_with_sagenet\<close>: the inner loop over the batches of one layer, and the outer
  loop over the layers.  \<^verbatim>\<open>torch.cat\<close> of an empty list of tensors is an error.
\<close>

fun inference_batches ::
  "full_sampler \<Rightarrow> ('a \<Rightarrow> 'a list \<Rightarrow> 'a) \<Rightarrow> 'a list \<Rightarrow> nat list \<Rightarrow> nat \<Rightarrow> nat list
     \<Rightarrow> error + 'a list list" where
  "inference_batches block_sampler conv h node_ids batch_size [] = Inr []"
| "inference_batches block_sampler conv h node_ids batch_size (batch_start # starts) =
     (case FullNeighborBlockSampler_sample block_sampler
             (take batch_size (drop batch_start node_ids)) of
        Inl e \<Rightarrow> Inl e
      | Inr blocks \<Rightarrow>
          (case blocks of
             [] \<Rightarrow> Inl IndexError
           | blk # _ \<Rightarrow>
               (case index_rows h (src_global_ids blk) of
                  Inl e \<Rightarrow> Inl e
                | Inr h_input \<Rightarrow>
                    (case propagate blk h_input conv of
                       Inl e \<Rightarrow> Inl e
                     | Inr new_h \<Rightarrow>
                         (case inference_batches block_sampler conv h node_ids batch_size starts of
                            Inl e \<Rightarrow> Inl e
                          | Inr new_h_list \<Rightarrow> Inr (new_h # new_h_list))))))"

fun inference_layers ::
  "full_sampler \<Rightarrow> graph \<Rightarrow> ('a \<Rightarrow> 'a list \<Rightarrow> 'a) list \<Rightarrow> 'a list \<Rightarrow> int \<Rightarrow> error + 'a list" where
  "inference_layers block_sampler g [] h batch_size = Inr h"
| "inference_layers block_sampler g (conv # cs) h batch_size =
     (let node_ids = [0..<num_nodes g]
      in case py_range0 (num_nodes g) batch_size of
           Inl e \<Rightarrow> Inl e
         | Inr starts \<Rightarrow>
             (case inference_batches block_sampler conv h node_ids (nat batch_size) starts of
                Inl e \<Rightarrow> Inl e
              | Inr new_h_list \<Rightarrow>
                  if new_h_list = [] then Inl RuntimeError
                  else inference_layers block_sampler g cs (concat new_h_list) batch_size))"

definition inference_with_sagenet ::
  "'a SAGENet \<Rightarrow> graph \<Rightarrow> 'a list \<Rightarrow> int \<Rightarrow> error + 'a list" where
  "inference_with_sagenet sagenet g input_features batch_size =
     (let block_sampler = FullNeighborBlockSampler_init g 1
      in inference_layers block_sampler g (convs sagenet) input_features batch_size)"

text \<open>
  The reference the inference is compared with, in the words of the spec: the layer
  transform applied once over the in-subgraph of the whole graph, with no batching.  All
  nodes \<open>0..N-1\<close> are the seeds, and the features are used as they are.
\<close>

definition whole_graph_transform ::
  "('a \<Rightarrow> 'a list \<Rightarrow> 'a) \<Rightarrow> graph \<Rightarrow> 'a list \<Rightarrow> error + 'a list" where
  "whole_graph_transform conv g h =
     (case in_subgraph g [0..<num_nodes g] of
        Inl e \<Rightarrow> Inl e
      | Inr sg \<Rightarrow> propagate (to_block sg [0..<num_nodes g]) h conv)"

section \<open>Notions used to state the properties\<close>

text \<open>The in-degree of a node in the original graph.\<close>

definition in_degree :: "graph \<Rightarrow> nat \<Rightarrow> nat" where
  "in_degree g v = length (filter (\<lambda>e. snd e = v) (edge_list g))"

text \<open>The in-degree of a destination node (by local index) within a block.\<close>

definition block_in_degree :: "block \<Rightarrow> nat \<Rightarrow> nat" where
  "block_in_degree b j = length (filter (\<lambda>e. snd e = j) (block_edges b))"

text \<open>The edges of a block mapped back from local indices to global ids.\<close>

definition global_edges :: "block \<Rightarrow> (nat \<times> nat) list" where
  "global_edges b =
     map (\<lambda>(i, j). (src_global_ids b ! i, dst_global_ids b ! j)) (block_edges b)"

text \<open>All endpoints of the edges of a graph are nodes of the graph.\<close>

definition wf_graph :: "graph \<Rightarrow> bool" where
  "wf_graph g = list_all (\<lambda>(u, v). u < num_nodes g \<and> v < num_nodes g) (edge_list g)"

text \<open>
  The output of the layer for one node of the whole graph: \<open>conv\<close> on the node's own
  feature and on the features at the sources of all its incoming edges, in edge order.
\<close>

definition node_transform :: "('a \<Rightarrow> 'a list \<Rightarrow> 'a) \<Rightarrow> graph \<Rightarrow> 'a list \<Rightarrow> nat \<Rightarrow> 'a" where
  "node_transform conv g h v =
     conv (h ! v) (map (\<lambda>e. h ! fst e) (filter (\<lambda>e. snd e = v) (edge_list g)))"

text \<open>
  The value of the variable \<^verbatim>\<open>seeds\<close> of \<^verbatim>\<open>FullNeighborBlockSampler.sample\<close> after \<open>t\<close>
  iterations of its loop: the seed set from which iteration \<open>t\<close> builds its block.
\<close>

fun full_frontier :: "graph \<Rightarrow> nat \<Rightarrow> nat list \<Rightarrow> error + nat list" where
  "full_frontier g 0 seeds = Inr seeds"
| "full_frontier g (Suc t) seeds =
     (case in_subgraph g seeds of
        Inl e \<Rightarrow> Inl e
      | Inr sampled_graph \<Rightarrow>
          full_frontier g t (src_global_ids (to_block sampled_graph seeds)))"

text \<open>
  The same for \<^verbatim>\<open>NeighborSampler.sample\<close>, after the iterations for the given fanouts (a
  prefix of the reversed fanout list), together with the state of the random source.
\<close>

fun neighbor_frontier :: "graph \<Rightarrow> int list \<Rightarrow> nat list \<Rightarrow> rng \<Rightarrow> error + (nat list \<times> rng)" where
  "neighbor_frontier g [] seeds r = Inr (seeds, r)"
| "neighbor_frontier g (fanout # fanouts) seeds r =
     (case sample_neighbors g seeds fanout r of
        Inl e \<Rightarrow> Inl e
      | Inr (sampled_graph, r1) \<Rightarrow>
          neighbor_frontier g fanouts (src_global_ids (to_block sampled_graph seeds)) r1)"

text \<open>
  A list of blocks in build order (the block for the last layer first) was built by the loop
  of the sampler from the given seeds: each block from the source ids of the one before.
\<close>

fun full_built :: "graph \<Rightarrow> nat list \<Rightarrow> block list \<Rightarrow> bool" where
  "full_built g seeds [] = True"
| "full_built g seeds (b # bs) =
     (case in_subgraph g seeds of
        Inl e \<Rightarrow> False
      | Inr sg \<Rightarrow> b = to_block sg seeds \<and> full_built g (src_global_ids b) bs)"

fun neighbor_built :: "graph \<Rightarrow> int list \<Rightarrow> nat list \<Rightarrow> rng \<Rightarrow> block list \<Rightarrow> rng \<Rightarrow> bool" where
  "neighbor_built g [] seeds r bs r' = (bs = [] \<and> r' = r)"
| "neighbor_built g (fanout # fanouts) seeds r [] r' = False"
| "neighbor_built g (fanout # fanouts) seeds r (b # bs) r' =
     (case sample_neighbors g seeds fanout r of
        Inl e \<Rightarrow> False
      | Inr (sg, r1) \<Rightarrow>
          b = to_block sg seeds \<and> neighbor_built g fanouts (src_global_ids b) r1 bs r')"

fun built_from :: "nat list \<Rightarrow> block list \<Rightarrow> bool" where
  "built_from seeds [] = True"
| "built_from seeds (b # bs) =
     ((\<exists>sg. b = to_block sg seeds) \<and> built_from (src_global_ids b) bs)"



section \<open>The runs shown in the notebook\<close>

text \<open>
  The two-layer samplers of the notebook on the example graph, the chains their runs print
  for the seeds 4 and 6, and a tape of draws under which the model of the neighbor sampler
  makes the choices of the printed run.
\<close>

definition example_full_sampler :: full_sampler where
  "example_full_sampler = FullNeighborBlockSampler_init example_graph 2"

definition example_full_chain :: "block list" where
  "example_full_chain =
     [\<lparr> src_global_ids = [4, 6, 0, 2, 7, 8, 9, 10, 1, 3],
        dst_global_ids = [4, 6, 0, 2, 7],
        block_edges =
          [(2, 0), (3, 0), (4, 0), (2, 1), (3, 1), (3, 2), (0, 2), (1, 2), (4, 2), (5, 2),
           (6, 2), (7, 2), (2, 3), (0, 3), (1, 3), (8, 3), (9, 3), (2, 4), (0, 4)] \<rparr>,
      \<lparr> src_global_ids = [4, 6, 0, 2, 7],
        dst_global_ids = [4, 6],
        block_edges = [(2, 0), (3, 0), (4, 0), (2, 1), (3, 1)] \<rparr>]"

definition example_neighbor_sampler :: neighbor_sampler where
  "example_neighbor_sampler = \<lparr> nbr_g = example_graph, num_fanouts = [2, 2] \<rparr>"

definition example_tape :: rng where
  "example_tape = [2, 1, 0, 1, 3, 3, 0, 5]"

definition example_neighbor_chain :: "block list" where
  "example_neighbor_chain =
     [\<lparr> src_global_ids = [4, 6, 7, 2, 0, 1, 3, 10],
        dst_global_ids = [4, 6, 7, 2, 0],
        block_edges =
          [(4, 0), (2, 0), (4, 1), (3, 1), (4, 2), (0, 2), (5, 3), (6, 3), (3, 4), (7, 4)] \<rparr>,
      \<lparr> src_global_ids = [4, 6, 7, 2, 0],
        dst_global_ids = [4, 6],
        block_edges = [(2, 0), (3, 0), (4, 1), (3, 1)] \<rparr>]"

text \<open>
  A deterministic layer and deterministic features for the example graph: the feature of node
  \<open>v\<close> is \<open>v\<close>, and the layer adds the features of the in-neighbours to a hundred times the
  node's own feature.
\<close>

definition example_conv :: "nat \<Rightarrow> nat list \<Rightarrow> nat" where
  "example_conv x ns = 100 * x + sum_list ns"

definition example_features :: "nat list" where
  "example_features = [0, 1, 2, 3, 4, 5, 6, 7, 8, 9, 10, 11]"

section \<open>Properties of the block builder\<close>

lemma add_ids_append: "\<exists>ys. add_ids acc xs = acc @ ys"
proof (induction xs arbitrary: acc)
  case Nil
  show ?case by simp
next
  case (Cons x xs)
  show ?case
  proof (cases "x \<in> set acc")
    case True
    with Cons.IH [of acc] show ?thesis by simp
  next
    case False
    from Cons.IH [of "acc @ [x]"] obtain ys where "add_ids (acc @ [x]) xs = (acc @ [x]) @ ys" ..
    with False show ?thesis by simp
  qed
qed

lemma add_ids_take: "take (length acc) (add_ids acc xs) = acc"
proof -
  obtain ys where "add_ids acc xs = acc @ ys" using add_ids_append by blast
  then show ?thesis by simp
qed

lemma add_ids_distinct: "distinct acc \<Longrightarrow> distinct (add_ids acc xs)"
  by (induction xs arbitrary: acc) auto

lemma add_ids_set: "set (add_ids acc xs) = set acc \<union> set xs"
  by (induction xs arbitrary: acc) auto

lemma add_ids_id: "distinct (acc @ xs) \<Longrightarrow> add_ids acc xs = acc @ xs"
  by (induction xs arbitrary: acc) auto

lemma add_ids_subset: "set xs \<subseteq> set acc \<Longrightarrow> add_ids acc xs = acc"
  by (induction xs arbitrary: acc) auto

lemma add_ids_length: "length acc \<le> length (add_ids acc xs)"
  using add_ids_append [of acc xs] by auto

lemma dedup_distinct: "distinct (dedup xs)"
  by (simp add: dedup_def add_ids_distinct)

lemma dedup_set: "set (dedup xs) = set xs"
  by (simp add: dedup_def add_ids_set)

lemma dedup_id: "distinct xs \<Longrightarrow> dedup xs = xs"
  by (simp add: dedup_def add_ids_id)

lemma index_of_nth: "x \<in> set xs \<Longrightarrow> xs ! index_of xs x = x"
  by (induction xs) auto

lemma index_of_less: "x \<in> set xs \<Longrightarrow> index_of xs x < length xs"
  by (induction xs) auto

lemma index_of_eq: "distinct xs \<Longrightarrow> j < length xs \<Longrightarrow> index_of xs (xs ! j) = j"
proof (induction xs arbitrary: j)
  case Nil
  then show ?case by simp
next
  case (Cons y ys)
  show ?case
  proof (cases j)
    case 0
    then show ?thesis by simp
  next
    case (Suc j')
    with Cons.prems have "ys ! j' \<in> set ys" "y \<notin> set ys" by auto
    then have "ys ! j' \<noteq> y" by blast
    with Cons Suc show ?thesis by simp
  qed
qed

lemma to_block_dst: "dst_global_ids (to_block sg seeds) = dedup seeds"
  by (simp add: to_block_def Let_def)

lemma to_block_src: "src_global_ids (to_block sg seeds) = add_ids (dedup seeds) (map fst sg)"
  by (simp add: to_block_def Let_def)

lemma to_block_edges:
  "block_edges (to_block sg seeds) =
     map (\<lambda>(u, v). (index_of (add_ids (dedup seeds) (map fst sg)) u, index_of (dedup seeds) v)) sg"
  by (simp add: to_block_def Let_def)

lemma to_block_prefix:
  "take (length (dst_global_ids (to_block sg seeds))) (src_global_ids (to_block sg seeds))
     = dst_global_ids (to_block sg seeds)"
  by (simp add: to_block_dst to_block_src add_ids_take)

lemma to_block_distinct_src: "distinct (src_global_ids (to_block sg seeds))"
  by (simp add: to_block_src add_ids_distinct dedup_distinct)

lemma to_block_distinct_dst: "distinct (dst_global_ids (to_block sg seeds))"
  by (simp add: to_block_dst dedup_distinct)

lemma to_block_Nil:
  "to_block [] [] = \<lparr> src_global_ids = [], dst_global_ids = [], block_edges = [] \<rparr>"
  by (simp add: to_block_def dedup_def)

lemma global_edges_to_block:
  assumes "snd ` set sg \<subseteq> set seeds"
  shows "global_edges (to_block sg seeds) = sg"
proof -
  let ?dst = "dedup seeds"
  let ?src = "add_ids ?dst (map fst sg)"
  have "map (\<lambda>(i, j). (?src ! i, ?dst ! j)) (map (\<lambda>(u, v). (index_of ?src u, index_of ?dst v)) sg)
          = map (\<lambda>e. e) sg"
    unfolding map_map
  proof (rule map_cong [OF refl])
    fix e assume e: "e \<in> set sg"
    obtain u v where uv: "e = (u, v)" by (cases e)
    from e uv have "u \<in> set ?src" by (force simp: add_ids_set)
    moreover from e uv assms have "v \<in> set ?dst" by (force simp: dedup_set)
    ultimately show "((\<lambda>(i, j). (?src ! i, ?dst ! j)) \<circ> (\<lambda>(u, v). (index_of ?src u, index_of ?dst v))) e = e"
      using uv by (simp add: index_of_nth)
  qed
  then show ?thesis
    by (simp add: global_edges_def to_block_def Let_def)
qed

lemma to_block_filter:
  assumes "snd ` set sg \<subseteq> set seeds" and "j < length (dedup seeds)"
  shows "filter ((\<lambda>e. snd e = j) \<circ>
            (\<lambda>(u, v). (index_of (add_ids (dedup seeds) (map fst sg)) u, index_of (dedup seeds) v))) sg
           = filter (\<lambda>e. snd e = dedup seeds ! j) sg"
proof (rule filter_cong [OF refl])
  fix e assume e: "e \<in> set sg"
  obtain u v where uv: "e = (u, v)" by (cases e)
  from e uv assms(1) have v: "v \<in> set (dedup seeds)" by (force simp: dedup_set)
  have "index_of (dedup seeds) v = j \<longleftrightarrow> v = dedup seeds ! j"
    using index_of_nth [OF v] index_of_eq [OF dedup_distinct assms(2)] by auto
  then show "((\<lambda>e. snd e = j) \<circ>
            (\<lambda>(u, v). (index_of (add_ids (dedup seeds) (map fst sg)) u, index_of (dedup seeds) v))) e
           = (snd e = dedup seeds ! j)"
    using uv by simp
qed

lemma to_block_in_degree:
  assumes "snd ` set sg \<subseteq> set seeds" and "j < length (dedup seeds)"
  shows "block_in_degree (to_block sg seeds) j = length (filter (\<lambda>e. snd e = dedup seeds ! j) sg)"
  by (simp add: block_in_degree_def to_block_edges filter_map to_block_filter [OF assms])

lemma block_messages:
  assumes "snd ` set sg \<subseteq> set seeds" and "j < length (dedup seeds)"
  shows "map (\<lambda>e. map (\<lambda>i. h ! i) (src_global_ids (to_block sg seeds)) ! fst e)
           (filter (\<lambda>e. snd e = j) (block_edges (to_block sg seeds)))
         = map (\<lambda>e. h ! fst e) (filter (\<lambda>e. snd e = dedup seeds ! j) sg)"
proof -
  let ?dst = "dedup seeds"
  let ?src = "add_ids ?dst (map fst sg)"
  let ?f = "\<lambda>(u, v). (index_of ?src u, index_of ?dst v)"
  have "map (\<lambda>e. map (\<lambda>i. h ! i) ?src ! fst e) (filter (\<lambda>e. snd e = j) (map ?f sg))
          = map ((\<lambda>e. map (\<lambda>i. h ! i) ?src ! fst e) \<circ> ?f) (filter ((\<lambda>e. snd e = j) \<circ> ?f) sg)"
    by (simp add: filter_map)
  also have "\<dots> = map ((\<lambda>e. map (\<lambda>i. h ! i) ?src ! fst e) \<circ> ?f) (filter (\<lambda>e. snd e = ?dst ! j) sg)"
    by (simp only: to_block_filter [OF assms])
  also have "\<dots> = map (\<lambda>e. h ! fst e) (filter (\<lambda>e. snd e = ?dst ! j) sg)"
  proof (rule map_cong [OF refl])
    fix e assume "e \<in> set (filter (\<lambda>e. snd e = ?dst ! j) sg)"
    then have e: "e \<in> set sg" by simp
    obtain u v where uv: "e = (u, v)" by (cases e)
    from e uv have u: "u \<in> set ?src" by (force simp: add_ids_set)
    show "((\<lambda>e. map (\<lambda>i. h ! i) ?src ! fst e) \<circ> ?f) e = h ! fst e"
      using uv index_of_less [OF u] index_of_nth [OF u] by simp
  qed
  finally show ?thesis by (simp only: to_block_edges to_block_src)
qed

lemma block_propagate:
  assumes "snd ` set sg \<subseteq> set seeds"
  shows "propagate (to_block sg seeds) (map (\<lambda>i. h ! i) (src_global_ids (to_block sg seeds))) conv
           = Inr (map (\<lambda>v. conv (h ! v) (map (\<lambda>e. h ! fst e) (filter (\<lambda>e. snd e = v) sg)))
                    (dedup seeds))"
proof -
  define b where "b = to_block sg seeds"
  define x where "x = map (\<lambda>i. h ! i) (src_global_ids b)"
  let ?D = "length (dedup seeds)"
  have dst: "dst_global_ids b = dedup seeds" by (simp add: b_def to_block_dst)
  have pre: "take ?D (src_global_ids b) = dedup seeds"
    using to_block_prefix [of sg seeds] by (simp add: b_def to_block_dst)
  have le: "?D \<le> length (src_global_ids b)"
    by (simp add: b_def to_block_src add_ids_length)
  have lx: "length x = length (src_global_ids b)" by (simp add: x_def)
  have ld: "length (take ?D x) = ?D" using le lx by simp
  have row: "conv (take ?D x ! j) (map (\<lambda>e. x ! fst e) (filter (\<lambda>e. snd e = j) (block_edges b)))
               = conv (h ! (dedup seeds ! j))
                   (map (\<lambda>e. h ! fst e) (filter (\<lambda>e. snd e = dedup seeds ! j) sg))"
    if j: "j < ?D" for j
  proof -
    from j le have "src_global_ids b ! j = take ?D (src_global_ids b) ! j" by simp
    then have "src_global_ids b ! j = dedup seeds ! j" by (simp only: pre)
    with j le have "take ?D x ! j = h ! (dedup seeds ! j)" by (simp add: x_def)
    moreover have "map (\<lambda>e. x ! fst e) (filter (\<lambda>e. snd e = j) (block_edges b))
                     = map (\<lambda>e. h ! fst e) (filter (\<lambda>e. snd e = dedup seeds ! j) sg)"
      unfolding x_def b_def using assms j by (rule block_messages)
    ultimately show ?thesis by simp
  qed
  have "propagate b x conv
          = Inr (map (\<lambda>j. conv (take ?D x ! j)
                       (map (\<lambda>e. x ! fst e) (filter (\<lambda>e. snd e = j) (block_edges b)))) [0..<?D])"
    using lx ld by (simp add: propagate_def apply_layer_def Let_def dst)
  also have "map (\<lambda>j. conv (take ?D x ! j)
                       (map (\<lambda>e. x ! fst e) (filter (\<lambda>e. snd e = j) (block_edges b)))) [0..<?D]
               = map (\<lambda>j. conv (h ! (dedup seeds ! j))
                   (map (\<lambda>e. h ! fst e) (filter (\<lambda>e. snd e = dedup seeds ! j) sg))) [0..<?D]"
  proof (rule map_cong [OF refl])
    fix j assume "j \<in> set [0..<?D]"
    then have "j < ?D" by simp
    then show "conv (take ?D x ! j)
                 (map (\<lambda>e. x ! fst e) (filter (\<lambda>e. snd e = j) (block_edges b)))
               = conv (h ! (dedup seeds ! j))
                   (map (\<lambda>e. h ! fst e) (filter (\<lambda>e. snd e = dedup seeds ! j) sg))"
      by (rule row)
  qed
  also have "\<dots> = map (\<lambda>v. conv (h ! v) (map (\<lambda>e. h ! fst e) (filter (\<lambda>e. snd e = v) sg)))
                     (map (\<lambda>j. dedup seeds ! j) [0..<?D])"
    by (simp add: comp_def)
  also have "map (\<lambda>j. dedup seeds ! j) [0..<?D] = dedup seeds" by (rule map_nth)
  finally show ?thesis by (simp add: b_def x_def)
qed

section \<open>Properties of the graph store and of edge gathering\<close>

lemma enumerate_in_edges:
  "map (\<lambda>(u, eid). (u, v)) (map (\<lambda>(i, e). (fst e, i)) (filter (\<lambda>(i, e). snd e = v) (enumerate n xs)))
     = filter (\<lambda>e. snd e = v) xs"
  by (induction xs arbitrary: n) auto

lemma enumerate_in_edges_length:
  "length (filter (\<lambda>(i, e). snd e = v) (enumerate n xs)) = length (filter (\<lambda>e. snd e = v) xs)"
  by (induction xs arbitrary: n) auto

lemma neighbors_of_edges:
  "neighbors_of g v = Inr inc \<Longrightarrow>
     v < num_nodes g \<and> map (\<lambda>(u, eid). (u, v)) inc = filter (\<lambda>e. snd e = v) (edge_list g)"
proof -
  assume a: "neighbors_of g v = Inr inc"
  then have v: "v < num_nodes g" by (auto simp: neighbors_of_def split: if_splits)
  with a have "inc = map (\<lambda>(i, e). (fst e, i)) (filter (\<lambda>(i, e). snd e = v) (enumerate 0 (edge_list g)))"
    by (simp add: neighbors_of_def)
  then have "map (\<lambda>(u, eid). (u, v)) inc = filter (\<lambda>e. snd e = v) (edge_list g)"
    by (simp only: enumerate_in_edges)
  with v show ?thesis by simp
qed

lemma neighbors_of_length: "neighbors_of g v = Inr inc \<Longrightarrow> length inc = in_degree g v"
  by (auto simp: neighbors_of_def in_degree_def enumerate_in_edges_length split: if_splits)

lemma neighbors_of_ok: "v < num_nodes g \<Longrightarrow> \<exists>inc. neighbors_of g v = Inr inc"
  by (simp add: neighbors_of_def)

lemma gather_full_ok:
  "\<forall>v \<in> set vs. v < num_nodes g \<Longrightarrow>
     gather_full g vs = Inr (concat (map (\<lambda>v. filter (\<lambda>e. snd e = v) (edge_list g)) vs))"
proof (induction vs)
  case Nil
  show ?case by simp
next
  case (Cons v vs)
  then have v: "v < num_nodes g" by simp
  then obtain inc where inc: "neighbors_of g v = Inr inc" using neighbors_of_ok by blast
  from Cons have "gather_full g vs = Inr (concat (map (\<lambda>v. filter (\<lambda>e. snd e = v) (edge_list g)) vs))"
    by simp
  with inc neighbors_of_edges [OF inc] show ?case by (simp add: select_full_def)
qed

lemma in_subgraph_Nil: "in_subgraph g [] = Inr []"
  by (simp add: in_subgraph_def dedup_def)

lemma in_subgraph_distinct:
  assumes "distinct S" and "\<forall>v \<in> set S. v < num_nodes g"
  shows "in_subgraph g S = Inr (concat (map (\<lambda>v. filter (\<lambda>e. snd e = v) (edge_list g)) S))"
  using assms by (simp add: in_subgraph_def dedup_id gather_full_ok)

lemma filter_in_edges_none:
  "v \<notin> set vs \<Longrightarrow>
     filter (\<lambda>e. snd e = v) (concat (map (\<lambda>w. filter (\<lambda>e. snd e = w) es) vs)) = []"
  by (induction vs) (auto simp: filter_empty_conv)

lemma filter_in_edges:
  "distinct vs \<Longrightarrow> v \<in> set vs \<Longrightarrow>
     filter (\<lambda>e. snd e = v) (concat (map (\<lambda>w. filter (\<lambda>e. snd e = w) es) vs))
       = filter (\<lambda>e. snd e = v) es"
proof (induction vs)
  case Nil
  then show ?case by simp
next
  case (Cons w vs)
  show ?case
  proof (cases "v = w")
    case True
    with Cons.prems have "w \<notin> set vs" by simp
    then have "filter (\<lambda>e. snd e = w) (concat (map (\<lambda>w. filter (\<lambda>e. snd e = w) es) vs)) = []"
      by (rule filter_in_edges_none)
    with True show ?thesis by simp
  next
    case False
    with Cons.prems have "distinct vs" "v \<in> set vs" by auto
    from Cons.IH [OF this] have ih:
      "filter (\<lambda>e. snd e = v) (concat (map (\<lambda>w. filter (\<lambda>e. snd e = w) es) vs))
         = filter (\<lambda>e. snd e = v) es" .
    have "filter (\<lambda>e. snd e = v) (filter (\<lambda>e. snd e = w) es) = []"
      using False by (auto simp: filter_empty_conv)
    with ih show ?thesis by simp
  qed
qed

lemma wf_graph_fst: "wf_graph g \<Longrightarrow> e \<in> set (edge_list g) \<Longrightarrow> fst e < num_nodes g"
  by (auto simp: wf_graph_def list_all_iff)

lemma draw_length: "length (fst (draw k xs r)) = min k (length xs)"
proof (induction k arbitrary: xs r)
  case 0
  show ?case by simp
next
  case (Suc k)
  show ?case
  proof (cases "xs = []")
    case True
    then show ?thesis by simp
  next
    case False
    obtain x r1 where nd: "next_draw r = (x, r1)" by (cases "next_draw r")
    define i where "i = x mod length xs"
    define rest where "rest = take i xs @ drop (Suc i) xs"
    obtain ys r2 where dr: "draw k rest r1 = (ys, r2)" by (cases "draw k rest r1")
    have i: "i < length xs" using False by (simp add: i_def)
    then have "length rest = length xs - 1" by (simp add: rest_def)
    moreover from Suc.IH [of rest r1] dr have "length ys = min k (length rest)" by simp
    ultimately have "length ys = min k (length xs - 1)" by simp
    moreover have "draw (Suc k) xs r = (xs ! i # ys, r2)"
      using False nd dr by (simp add: i_def rest_def Let_def)
    ultimately show ?thesis using i by auto
  qed
qed

lemma select_fanout_length:
  "0 \<le> k \<Longrightarrow> length (fst (select_fanout k inc r)) = min (nat k) (length inc)"
  by (auto simp: select_fanout_def draw_length)

lemma gather_fanout_dsts:
  "gather_fanout g k vs r = Inr (es, r') \<Longrightarrow> snd ` set es \<subseteq> set vs"
proof (induction vs arbitrary: es r)
  case Nil
  then show ?case by simp
next
  case (Cons v vs)
  from Cons.prems obtain inc chosen r1 es' where
    "neighbors_of g v = Inr inc" "select_fanout k inc r = (chosen, r1)"
    and es': "gather_fanout g k vs r1 = Inr (es', r')"
    and es: "es = map (\<lambda>(u, eid). (u, v)) chosen @ es'"
    by (auto split: sum.splits prod.splits)
  from Cons.IH [OF es'] es show ?case by auto
qed

lemma gather_fanout_count:
  "gather_fanout g k vs r = Inr (es, r') \<Longrightarrow> distinct vs \<Longrightarrow> 0 \<le> k \<Longrightarrow> v \<in> set vs \<Longrightarrow>
     length (filter (\<lambda>e. snd e = v) es) = min (nat k) (in_degree g v)"
proof (induction vs arbitrary: es r)
  case Nil
  then show ?case by simp
next
  case (Cons w vs)
  from Cons.prems(1) obtain inc chosen r1 es' where
    inc: "neighbors_of g w = Inr inc" and ch: "select_fanout k inc r = (chosen, r1)"
    and es': "gather_fanout g k vs r1 = Inr (es', r')"
    and es: "es = map (\<lambda>(u, eid). (u, w)) chosen @ es'"
    by (auto split: sum.splits prod.splits)
  have len: "length chosen = min (nat k) (in_degree g w)"
    using select_fanout_length [OF Cons.prems(3), of inc r] ch neighbors_of_length [OF inc]
    by simp
  show ?case
  proof (cases "v = w")
    case True
    from Cons.prems(2) have "w \<notin> set vs" by simp
    with gather_fanout_dsts [OF es'] have "filter (\<lambda>e. snd e = w) es' = []"
      by (auto simp: filter_empty_conv)
    moreover have "filter (\<lambda>e. snd e = w) (map (\<lambda>(u, eid). (u, w)) chosen)
                     = map (\<lambda>(u, eid). (u, w)) chosen"
      by (auto simp: filter_id_conv)
    ultimately show ?thesis using True es len by simp
  next
    case False
    with Cons.prems have v: "v \<in> set vs" and d: "distinct vs" by auto
    have "filter (\<lambda>e. snd e = v) (map (\<lambda>(u, eid). (u, w)) chosen) = []"
      using False by (auto simp: filter_empty_conv)
    with Cons.IH [OF es' d Cons.prems(3) v] es show ?thesis by simp
  qed
qed

lemma sample_neighbors_Nil: "sample_neighbors g [] k r = Inr ([], r)"
  by (simp add: sample_neighbors_def dedup_def)

section \<open>Properties of the sample loops\<close>

lemma full_loop_built:
  "full_sample_loop g n seeds acc = Inr chain \<Longrightarrow>
     \<exists>new. chain = rev new @ acc \<and> length new = n \<and> full_built g seeds new"
proof (induction n arbitrary: seeds acc)
  case 0
  then show ?case by simp
next
  case (Suc n)
  from Suc.prems obtain sg where sg: "in_subgraph g seeds = Inr sg"
    by (cases "in_subgraph g seeds") auto
  define b where "b = to_block sg seeds"
  from Suc.prems sg have "full_sample_loop g n (src_global_ids b) (b # acc) = Inr chain"
    by (simp add: b_def Let_def)
  from Suc.IH [OF this] obtain new where
    new: "chain = rev new @ b # acc" "length new = n" "full_built g (src_global_ids b) new"
    by blast
  have "chain = rev (b # new) @ acc" using new(1) by simp
  moreover have "length (b # new) = Suc n" using new(2) by simp
  moreover have "full_built g seeds (b # new)" using sg new(3) by (simp add: b_def)
  ultimately show ?case by blast
qed

lemma neighbor_loop_built:
  "neighbor_sample_loop g fs seeds acc r = Inr (chain, r') \<Longrightarrow>
     \<exists>new. chain = rev new @ acc \<and> length new = length fs \<and> neighbor_built g fs seeds r new r'"
proof (induction fs arbitrary: seeds acc r)
  case Nil
  then show ?case by simp
next
  case (Cons f fs)
  from Cons.prems obtain sg r1 where sg: "sample_neighbors g seeds f r = Inr (sg, r1)"
    by (cases "sample_neighbors g seeds f r") auto
  define b where "b = to_block sg seeds"
  from Cons.prems sg have "neighbor_sample_loop g fs (src_global_ids b) (b # acc) r1 = Inr (chain, r')"
    by (simp add: b_def Let_def)
  from Cons.IH [OF this] obtain new where
    new: "chain = rev new @ b # acc" "length new = length fs"
         "neighbor_built g fs (src_global_ids b) r1 new r'"
    by blast
  have "chain = rev (b # new) @ acc" using new(1) by simp
  moreover have "length (b # new) = length (f # fs)" using new(2) by simp
  moreover have "neighbor_built g (f # fs) seeds r (b # new) r'" using sg new(3) by (simp add: b_def)
  ultimately show ?case by blast
qed

lemma full_built_from: "full_built g seeds new \<Longrightarrow> built_from seeds new"
  by (induction new arbitrary: seeds) (auto split: sum.splits)

lemma neighbor_built_from: "neighbor_built g fs seeds r new r' \<Longrightarrow> built_from seeds new"
proof (induction g fs seeds r new r' rule: neighbor_built.induct)
  case (1 g seeds r bs r')
  then show ?case by simp
next
  case (2 g fanout fanouts seeds r r')
  then show ?case by simp
next
  case (3 g fanout fanouts seeds r b bs r')
  then show ?case by (auto split: sum.splits prod.splits)
qed

lemma built_from_member:
  "built_from seeds new \<Longrightarrow> b \<in> set new \<Longrightarrow> \<exists>sg s. b = to_block sg s"
  by (induction new arbitrary: seeds) auto

lemma built_from_link:
  "built_from seeds new \<Longrightarrow> Suc t < length new \<Longrightarrow>
     dst_global_ids (new ! Suc t) = src_global_ids (new ! t)"
proof (induction new arbitrary: seeds t)
  case Nil
  then show ?case by simp
next
  case (Cons b bs)
  show ?case
  proof (cases t)
    case 0
    from Cons.prems 0 obtain b' bs' where bs: "bs = b' # bs'" by (cases bs) auto
    with Cons.prems obtain sg sg' where "b = to_block sg seeds" "b' = to_block sg' (src_global_ids b)"
      by auto
    then have "dst_global_ids b' = src_global_ids b"
      by (simp add: to_block_dst dedup_id to_block_distinct_src)
    with 0 bs show ?thesis by simp
  next
    case (Suc t')
    with Cons.prems have "built_from (src_global_ids b) bs" "Suc t' < length bs" by auto
    from Cons.IH [OF this] Suc show ?thesis by simp
  qed
qed

lemma full_sample_built:
  assumes "FullNeighborBlockSampler_sample s seeds = Inr chain"
  shows "length chain = nat (num_layers s) \<and> full_built (full_g s) seeds (rev chain)"
proof -
  from assms full_loop_built [of "full_g s" "nat (num_layers s)" seeds "[]" chain]
  obtain new where "chain = rev new" "length new = nat (num_layers s)" "full_built (full_g s) seeds new"
    by (auto simp: FullNeighborBlockSampler_sample_def)
  then show ?thesis by simp
qed

lemma neighbor_sample_built:
  assumes "NeighborSampler_sample s seeds r = Inr (chain, r')"
  shows "length chain = length (num_fanouts s) \<and>
         neighbor_built (nbr_g s) (rev (num_fanouts s)) seeds r (rev chain) r'"
proof -
  from assms neighbor_loop_built [of "nbr_g s" "rev (num_fanouts s)" seeds "[]" r chain r']
  obtain new where "chain = rev new" "length new = length (rev (num_fanouts s))"
    "neighbor_built (nbr_g s) (rev (num_fanouts s)) seeds r new r'"
    by (auto simp: NeighborSampler_sample_def)
  then show ?thesis by simp
qed

lemma chain_link:
  assumes "built_from seeds (rev chain)" and "Suc k < length chain"
  shows "dst_global_ids (chain ! k) = src_global_ids (chain ! Suc k)"
proof -
  let ?L = "length chain"
  have t: "Suc (?L - Suc (Suc k)) < length (rev chain)" using assms(2) by simp
  from built_from_link [OF assms(1) t]
  have "dst_global_ids (rev chain ! Suc (?L - Suc (Suc k))) = src_global_ids (rev chain ! (?L - Suc (Suc k)))" .
  moreover have "rev chain ! Suc (?L - Suc (Suc k)) = chain ! k"
    using assms(2) by (simp add: rev_nth Suc_diff_Suc)
  moreover have "rev chain ! (?L - Suc (Suc k)) = chain ! Suc k"
    using assms(2) by (simp add: rev_nth Suc_diff_Suc)
  ultimately show ?thesis by simp
qed

lemma full_built_nth:
  "full_built g seeds new \<Longrightarrow> t < length new \<Longrightarrow>
     \<exists>fr sg. full_frontier g t seeds = Inr fr \<and> in_subgraph g fr = Inr sg \<and>
             new ! t = to_block sg fr \<and>
             full_frontier g (Suc t) seeds = Inr (src_global_ids (new ! t))"
proof (induction new arbitrary: seeds t)
  case Nil
  then show ?case by simp
next
  case (Cons b bs)
  from Cons.prems(1) obtain sg where
    sg: "in_subgraph g seeds = Inr sg" "b = to_block sg seeds" "full_built g (src_global_ids b) bs"
    by (auto split: sum.splits)
  show ?case
  proof (cases t)
    case 0
    with sg show ?thesis by simp
  next
    case (Suc t')
    with Cons.prems(2) have "t' < length bs" by simp
    from Cons.IH [OF sg(3) this] sg(1,2) Suc show ?thesis by simp
  qed
qed

lemma neighbor_built_nth:
  "neighbor_built g fs seeds r new r' \<Longrightarrow> t < length new \<Longrightarrow>
     \<exists>fr rt sg rt'. neighbor_frontier g (take t fs) seeds r = Inr (fr, rt) \<and>
             sample_neighbors g fr (fs ! t) rt = Inr (sg, rt') \<and>
             new ! t = to_block sg fr \<and>
             neighbor_frontier g (take (Suc t) fs) seeds r = Inr (src_global_ids (new ! t), rt')"
proof (induction g fs seeds r new r' arbitrary: t rule: neighbor_built.induct)
  case (1 g seeds r bs r')
  then show ?case by simp
next
  case (2 g fanout fanouts seeds r r')
  then show ?case by simp
next
  case (3 g fanout fanouts seeds r b bs r')
  from "3.prems"(1) obtain sg r1 where
    sg: "sample_neighbors g seeds fanout r = Inr (sg, r1)" "b = to_block sg seeds"
        "neighbor_built g fanouts (src_global_ids b) r1 bs r'"
    by (auto split: sum.splits prod.splits)
  show ?case
  proof (cases t)
    case 0
    with sg show ?thesis by simp
  next
    case (Suc t')
    with "3.prems"(2) have t': "t' < length bs" by simp
    from "3.IH" [OF sg(1) refl sg(3) t'] sg(1,2) Suc show ?thesis by simp
  qed
qed

lemma full_sample_one:
  "in_subgraph g seeds = Inr sg \<Longrightarrow>
     FullNeighborBlockSampler_sample (FullNeighborBlockSampler_init g 1) seeds = Inr [to_block sg seeds]"
  by (simp add: FullNeighborBlockSampler_sample_def FullNeighborBlockSampler_init_def Let_def)

lemma full_loop_Nil:
  "full_sample_loop g n [] acc
     = Inr (replicate n \<lparr> src_global_ids = [], dst_global_ids = [], block_edges = [] \<rparr> @ acc)"
proof (induction n arbitrary: acc)
  case 0
  show ?case by simp
next
  case (Suc n)
  show ?case
    by (simp add: in_subgraph_Nil to_block_Nil Suc.IH replicate_app_Cons_same Let_def)
qed

lemma neighbor_loop_Nil:
  "neighbor_sample_loop g fs [] acc r
     = Inr (replicate (length fs) \<lparr> src_global_ids = [], dst_global_ids = [], block_edges = [] \<rparr> @ acc, r)"
proof (induction fs arbitrary: acc)
  case Nil
  show ?case by simp
next
  case (Cons f fs)
  show ?case
    by (simp add: sample_neighbors_Nil to_block_Nil Cons.IH replicate_app_Cons_same Let_def)
qed

section \<open>The runs of the notebook in the model\<close>

lemma example_graph_edges:
  "example_graph =
     \<lparr> num_nodes = 12,
       edge_list =
         [(0, 2), (0, 4), (0, 6), (0, 7), (0, 8), (0, 9), (0, 10), (2, 0), (2, 1), (2, 3),
          (2, 4), (2, 6), (4, 0), (4, 2), (4, 7), (6, 0), (6, 2), (7, 0), (7, 4), (8, 0),
          (8, 3), (8, 9), (8, 11), (9, 0), (9, 8), (9, 10), (9, 11), (10, 0), (10, 9), (1, 2),
          (1, 3), (1, 5), (3, 1), (3, 2), (3, 5), (3, 8), (5, 1), (5, 3), (11, 8), (11, 9)] \<rparr>"
  by code_simp

lemma example_full_sample:
  "FullNeighborBlockSampler_sample example_full_sampler [4, 6] = Inr example_full_chain"
  by code_simp

lemma example_neighbor_sample:
  "NeighborSampler_sample example_neighbor_sampler [4, 6] example_tape = Inr (example_neighbor_chain, [])"
  by code_simp

lemma example_duplicate_seeds:
  "FullNeighborBlockSampler_sample (FullNeighborBlockSampler_init example_graph 1) [6, 4, 6, 6, 4]
     = Inr [\<lparr> src_global_ids = [6, 4, 0, 2, 7], dst_global_ids = [6, 4],
              block_edges = [(2, 0), (3, 0), (2, 1), (3, 1), (4, 1)] \<rparr>]"
  by code_simp

lemma neighbor_sample_depends_on_draws:
  "NeighborSampler_sample example_neighbor_sampler [4, 6] []
     \<noteq> NeighborSampler_sample example_neighbor_sampler [4, 6] example_tape"
  by code_simp

lemma example_inference_batched:
  "inference_with_sagenet \<lparr> convs = [example_conv] \<rparr> example_graph example_features 5
       = Inr [46, 110, 214, 316, 409, 504, 602, 704, 823, 929, 1009, 1117]"
  by code_simp

section \<open>The prefix invariant\<close>

text \<open>
  Claim C1 (prefix invariant).  For every block of a chain returned by either sampler, for
  every seed list, the destination ids are the first D source ids, in the same order, where
  D is the number of destination ids.  So the first D of the feature rows fetched for the
  source ids are the feature rows of the destination nodes.
\<close>

theorem C1_prefix:
  "(FullNeighborBlockSampler_sample s seeds = Inr chain \<longrightarrow>
      (\<forall>b \<in> set chain.
         dst_global_ids b = take (length (dst_global_ids b)) (src_global_ids b)
         \<and> take (length (dst_global_ids b)) (map feat (src_global_ids b))
             = map feat (dst_global_ids b)))
   \<and> (NeighborSampler_sample ns seeds' r = Inr (chain', r') \<longrightarrow>
      (\<forall>b \<in> set chain'.
         dst_global_ids b = take (length (dst_global_ids b)) (src_global_ids b)
         \<and> take (length (dst_global_ids b)) (map feat (src_global_ids b))
             = map feat (dst_global_ids b)))"
proof -
  have slice: "dst_global_ids b = take (length (dst_global_ids b)) (src_global_ids b)
         \<and> take (length (dst_global_ids b)) (map feat (src_global_ids b))
             = map feat (dst_global_ids b)"
    if "built_from x (rev c)" and "b \<in> set c" for x c b
  proof -
    from that obtain sg y where "b = to_block sg y"
      using built_from_member [of x "rev c" b] by auto
    then have p: "take (length (dst_global_ids b)) (src_global_ids b) = dst_global_ids b"
      by (simp add: to_block_prefix)
    have "take (length (dst_global_ids b)) (map feat (src_global_ids b))
            = map feat (take (length (dst_global_ids b)) (src_global_ids b))"
      by (rule take_map)
    with p show ?thesis by simp
  qed
  show ?thesis
  proof (intro conjI impI ballI)
    fix b
    assume "FullNeighborBlockSampler_sample s seeds = Inr chain" and b: "b \<in> set chain"
    then have "built_from seeds (rev chain)"
      using full_sample_built full_built_from by blast
    from slice [OF this b]
    show "dst_global_ids b = take (length (dst_global_ids b)) (src_global_ids b)"
      and "take (length (dst_global_ids b)) (map feat (src_global_ids b))
             = map feat (dst_global_ids b)"
      by simp_all
  next
    fix b
    assume "NeighborSampler_sample ns seeds' r = Inr (chain', r')" and b: "b \<in> set chain'"
    then have "built_from seeds' (rev chain')"
      using neighbor_sample_built neighbor_built_from by blast
    from slice [OF this b]
    show "dst_global_ids b = take (length (dst_global_ids b)) (src_global_ids b)"
      and "take (length (dst_global_ids b)) (map feat (src_global_ids b))
             = map feat (dst_global_ids b)"
      by simp_all
  qed
qed

text \<open>
  Claim C1 on the first blocks of the two runs of the notebook.
\<close>

theorem C1_witness:
  "FullNeighborBlockSampler_sample example_full_sampler [4, 6] = Inr example_full_chain
   \<and> NeighborSampler_sample example_neighbor_sampler [4, 6] example_tape
       = Inr (example_neighbor_chain, [])
   \<and> dst_global_ids (example_full_chain ! 0)
       = take (length (dst_global_ids (example_full_chain ! 0)))
           (src_global_ids (example_full_chain ! 0))
   \<and> take (length (dst_global_ids (example_full_chain ! 0)))
         (map (\<lambda>v. example_features ! v) (src_global_ids (example_full_chain ! 0)))
       = map (\<lambda>v. example_features ! v) (dst_global_ids (example_full_chain ! 0))
   \<and> dst_global_ids (example_neighbor_chain ! 0)
       = take (length (dst_global_ids (example_neighbor_chain ! 0)))
           (src_global_ids (example_neighbor_chain ! 0))"
proof -
  have m1: "example_full_chain ! 0 \<in> set example_full_chain"
    by (simp add: example_full_chain_def)
  have m2: "example_neighbor_chain ! 0 \<in> set example_neighbor_chain"
    by (simp add: example_neighbor_chain_def)
  from C1_prefix [of example_full_sampler "[4, 6]" example_full_chain "\<lambda>v. example_features ! v"
      example_neighbor_sampler "[4, 6]" example_tape example_neighbor_chain "[]"]
    example_full_sample example_neighbor_sample m1 m2
  show ?thesis by blast
qed

section \<open>Chain continuity\<close>

text \<open>
  Claim C2 as stated fails on the run of the notebook: with two layers and the seeds 4 and 6,
  the seed set used to build \<open>chain[0]\<close> is \<open>[4, 6, 0, 2, 7]\<close>, while the destination ids
  of \<open>chain[1]\<close> are \<open>[4, 6]\<close>.
\<close>

theorem C2_counterexample:
  "FullNeighborBlockSampler_sample example_full_sampler [4, 6] = Inr example_full_chain
   \<and> full_frontier (full_g example_full_sampler) (length example_full_chain - Suc 0) [4, 6]
       = Inr [4, 6, 0, 2, 7]
   \<and> dst_global_ids (example_full_chain ! Suc 0) = [4, 6]
   \<and> dst_global_ids (example_full_chain ! Suc 0) \<noteq> [4, 6, 0, 2, 7]"
proof -
  have "full_frontier (full_g example_full_sampler) (length example_full_chain - Suc 0) [4, 6]
       = Inr [4, 6, 0, 2, 7]"
    by code_simp
  moreover have "dst_global_ids (example_full_chain ! Suc 0) = [4, 6]"
    by (simp add: example_full_chain_def)
  ultimately show ?thesis using example_full_sample by simp
qed

text \<open>
  Claim C2 (chain continuity), as amended.  The seed set from which \<open>chain[i]\<close> is built is
  the value of \<^verbatim>\<open>seeds\<close> after \<open>L - 1 - i\<close> iterations of the loop.  For \<open>i + 1 < L\<close> it
  equals the source ids of \<open>chain[i+1]\<close> (not its destination ids), and \<open>chain[i]\<close> is
  the block built from it.
\<close>

theorem C2_amended:
  "(FullNeighborBlockSampler_sample s seeds = Inr chain \<longrightarrow>
      (\<forall>i. Suc i < length chain \<longrightarrow>
         (\<exists>sg. full_frontier (full_g s) (length chain - Suc i) seeds
                  = Inr (src_global_ids (chain ! Suc i)) \<and>
               in_subgraph (full_g s) (src_global_ids (chain ! Suc i)) = Inr sg \<and>
               chain ! i = to_block sg (src_global_ids (chain ! Suc i)))))
   \<and> (NeighborSampler_sample ns seeds' r = Inr (chain', r') \<longrightarrow>
      (\<forall>i. Suc i < length chain' \<longrightarrow>
         (\<exists>sg r1 r2. neighbor_frontier (nbr_g ns)
                        (take (length chain' - Suc i) (rev (num_fanouts ns))) seeds' r
                  = Inr (src_global_ids (chain' ! Suc i), r1) \<and>
               sample_neighbors (nbr_g ns) (src_global_ids (chain' ! Suc i))
                  (num_fanouts ns ! i) r1 = Inr (sg, r2) \<and>
               chain' ! i = to_block sg (src_global_ids (chain' ! Suc i)))))"
proof (intro conjI impI allI)
  fix i
  assume a: "FullNeighborBlockSampler_sample s seeds = Inr chain" and i: "Suc i < length chain"
  let ?L = "length chain"
  let ?t = "?L - Suc (Suc i)"
  from a have fb: "full_built (full_g s) seeds (rev chain)"
    using full_sample_built by blast
  have n1: "rev chain ! Suc ?t = chain ! i" and n0: "rev chain ! ?t = chain ! Suc i"
    using i by (simp_all add: rev_nth Suc_diff_Suc)
  have St: "Suc ?t = ?L - Suc i" using i by simp
  have t0: "?t < length (rev chain)" and t1: "Suc ?t < length (rev chain)" using i by simp_all
  from full_built_nth [OF fb t0] obtain fr0 sg0 where
    "full_frontier (full_g s) (Suc ?t) seeds = Inr (src_global_ids (rev chain ! ?t))"
    by blast
  then have f0: "full_frontier (full_g s) (Suc ?t) seeds = Inr (src_global_ids (chain ! Suc i))"
    unfolding n0 .
  from full_built_nth [OF fb t1] obtain fr sg where
    "full_frontier (full_g s) (Suc ?t) seeds = Inr fr" "in_subgraph (full_g s) fr = Inr sg"
    "rev chain ! Suc ?t = to_block sg fr"
    by blast
  with f0 n1 St [symmetric]
  show "\<exists>sg. full_frontier (full_g s) (length chain - Suc i) seeds
                  = Inr (src_global_ids (chain ! Suc i)) \<and>
               in_subgraph (full_g s) (src_global_ids (chain ! Suc i)) = Inr sg \<and>
               chain ! i = to_block sg (src_global_ids (chain ! Suc i))"
    by auto
next
  fix i
  assume a: "NeighborSampler_sample ns seeds' r = Inr (chain', r')" and i: "Suc i < length chain'"
  let ?L = "length chain'"
  let ?t = "?L - Suc (Suc i)"
  let ?fs = "rev (num_fanouts ns)"
  from a have len: "?L = length (num_fanouts ns)"
    and nb: "neighbor_built (nbr_g ns) ?fs seeds' r (rev chain') r'"
    using neighbor_sample_built by blast+
  have n1: "rev chain' ! Suc ?t = chain' ! i" and n0: "rev chain' ! ?t = chain' ! Suc i"
    using i by (simp_all add: rev_nth Suc_diff_Suc)
  have St: "Suc ?t = ?L - Suc i" using i by simp
  have fi: "?fs ! Suc ?t = num_fanouts ns ! i"
    using i len by (simp add: rev_nth Suc_diff_Suc)
  have t0: "?t < length (rev chain')" and t1: "Suc ?t < length (rev chain')" using i by simp_all
  from neighbor_built_nth [OF nb t0] obtain rt' where
    "neighbor_frontier (nbr_g ns) (take (Suc ?t) ?fs) seeds' r
           = Inr (src_global_ids (rev chain' ! ?t), rt')"
    by blast
  then have f0: "neighbor_frontier (nbr_g ns) (take (Suc ?t) ?fs) seeds' r
           = Inr (src_global_ids (chain' ! Suc i), rt')"
    unfolding n0 .
  from neighbor_built_nth [OF nb t1] obtain fr rt sg rt2 where
    "neighbor_frontier (nbr_g ns) (take (Suc ?t) ?fs) seeds' r = Inr (fr, rt)"
    "sample_neighbors (nbr_g ns) fr (?fs ! Suc ?t) rt = Inr (sg, rt2)"
    "rev chain' ! Suc ?t = to_block sg fr"
    by blast
  with f0 n1 St [symmetric] fi
  show "\<exists>sg r1 r2. neighbor_frontier (nbr_g ns)
                        (take (length chain' - Suc i) (rev (num_fanouts ns))) seeds' r
                  = Inr (src_global_ids (chain' ! Suc i), r1) \<and>
               sample_neighbors (nbr_g ns) (src_global_ids (chain' ! Suc i))
                  (num_fanouts ns ! i) r1 = Inr (sg, r2) \<and>
               chain' ! i = to_block sg (src_global_ids (chain' ! Suc i))"
    by auto
qed

text \<open>
  The amended claim C2 on the two runs of the notebook.
\<close>

theorem C2_witness:
  "FullNeighborBlockSampler_sample example_full_sampler [4, 6] = Inr example_full_chain
   \<and> NeighborSampler_sample example_neighbor_sampler [4, 6] example_tape
       = Inr (example_neighbor_chain, [])
   \<and> Suc 0 < length example_full_chain \<and> Suc 0 < length example_neighbor_chain
   \<and> full_frontier (full_g example_full_sampler) (length example_full_chain - Suc 0) [4, 6]
       = Inr (src_global_ids (example_full_chain ! Suc 0))
   \<and> (\<exists>r1. neighbor_frontier (nbr_g example_neighbor_sampler)
              (take (length example_neighbor_chain - Suc 0)
                 (rev (num_fanouts example_neighbor_sampler))) [4, 6] example_tape
         = Inr (src_global_ids (example_neighbor_chain ! Suc 0), r1))"
proof -
  have l1: "Suc 0 < length example_full_chain" by (simp add: example_full_chain_def)
  have l2: "Suc 0 < length example_neighbor_chain" by (simp add: example_neighbor_chain_def)
  from C2_amended [of example_full_sampler "[4, 6]" example_full_chain
      example_neighbor_sampler "[4, 6]" example_tape example_neighbor_chain "[]"]
    example_full_sample example_neighbor_sample l1 l2
  show ?thesis by blast
qed

section \<open>The fanout bound\<close>

text \<open>
  Claim C3 (fanout bound).  In the block that the neighbor sampler builds for layer \<open>i\<close>
  with the fanout \<open>k = num_fanouts[i]\<close> (a count, so not negative), the in-degree of every
  destination node is at most \<open>k\<close> and equals the minimum of \<open>k\<close> and the node's in-degree
  in the original graph, for every seed list and every state of the random source.
\<close>

theorem C3_fanout_bound:
  assumes "NeighborSampler_sample ns seeds r = Inr (chain, r')"
    and "i < length chain"
    and "j < length (dst_global_ids (chain ! i))"
    and "0 \<le> num_fanouts ns ! i"
  shows "int (block_in_degree (chain ! i) j) \<le> num_fanouts ns ! i
         \<and> int (block_in_degree (chain ! i) j)
             = min (num_fanouts ns ! i) (int (in_degree (nbr_g ns) (dst_global_ids (chain ! i) ! j)))"
proof -
  let ?L = "length chain"
  let ?t = "?L - Suc i"
  let ?fs = "rev (num_fanouts ns)"
  let ?k = "num_fanouts ns ! i"
  from assms(1) have len: "?L = length (num_fanouts ns)"
    and nb: "neighbor_built (nbr_g ns) ?fs seeds r (rev chain) r'"
    using neighbor_sample_built by blast+
  have t: "?t < length (rev chain)" using assms(2) by simp
  have ci: "rev chain ! ?t = chain ! i" using assms(2) by (simp add: rev_nth)
  have fi: "?fs ! ?t = ?k" using assms(2) len by (simp add: rev_nth)
  from neighbor_built_nth [OF nb t] obtain fr rt sg rt' where
    sn: "sample_neighbors (nbr_g ns) fr (?fs ! ?t) rt = Inr (sg, rt')"
    and bl: "rev chain ! ?t = to_block sg fr"
    by blast
  from sn have ga: "gather_fanout (nbr_g ns) ?k (dedup fr) rt = Inr (sg, rt')"
    by (simp add: sample_neighbors_def fi)
  from bl ci have b: "chain ! i = to_block sg fr" by simp
  then have dst: "dst_global_ids (chain ! i) = dedup fr" by (simp add: to_block_dst)
  with assms(3) have j: "j < length (dedup fr)" by simp
  then have v: "dedup fr ! j \<in> set (dedup fr)" by simp
  from gather_fanout_dsts [OF ga] have sub: "snd ` set sg \<subseteq> set fr" by (simp add: dedup_set)
  have "block_in_degree (chain ! i) j = length (filter (\<lambda>e. snd e = dedup fr ! j) sg)"
    unfolding b using sub j by (rule to_block_in_degree)
  also have "\<dots> = min (nat ?k) (in_degree (nbr_g ns) (dedup fr ! j))"
    using ga dedup_distinct assms(4) v by (rule gather_fanout_count)
  finally have "block_in_degree (chain ! i) j
                  = min (nat ?k) (in_degree (nbr_g ns) (dst_global_ids (chain ! i) ! j))"
    by (simp add: dst)
  with assms(4) show ?thesis by auto
qed

text \<open>
  Claim C3 on the run of the notebook: node 0 has in-degree 7 in the example graph and
  in-degree 2 in the first block.
\<close>

theorem C3_witness:
  "NeighborSampler_sample example_neighbor_sampler [4, 6] example_tape
       = Inr (example_neighbor_chain, [])
   \<and> 0 < length example_neighbor_chain
   \<and> 4 < length (dst_global_ids (example_neighbor_chain ! 0))
   \<and> 0 \<le> num_fanouts example_neighbor_sampler ! 0
   \<and> in_degree (nbr_g example_neighbor_sampler) (dst_global_ids (example_neighbor_chain ! 0) ! 4) = 7
   \<and> num_fanouts example_neighbor_sampler ! 0 = 2
   \<and> int (block_in_degree (example_neighbor_chain ! 0) 4) \<le> 2
   \<and> int (block_in_degree (example_neighbor_chain ! 0) 4)
        = min 2 (int (in_degree (nbr_g example_neighbor_sampler)
                        (dst_global_ids (example_neighbor_chain ! 0) ! 4)))"
proof -
  have h2: "0 < length example_neighbor_chain" by (simp add: example_neighbor_chain_def)
  have h3: "4 < length (dst_global_ids (example_neighbor_chain ! 0))"
    by (simp add: example_neighbor_chain_def)
  have h4: "0 \<le> num_fanouts example_neighbor_sampler ! 0"
    by (simp add: example_neighbor_sampler_def)
  have k: "num_fanouts example_neighbor_sampler ! 0 = 2"
    by (simp add: example_neighbor_sampler_def)
  have d: "in_degree (nbr_g example_neighbor_sampler) (dst_global_ids (example_neighbor_chain ! 0) ! 4) = 7"
    by code_simp
  from C3_fanout_bound [OF example_neighbor_sample h2 h3 h4] h2 h3 h4 k d example_neighbor_sample
  show ?thesis by simp
qed

section \<open>Edge correctness under full selection\<close>

text \<open>
  Claim C4 (edge correctness under full selection).  On a graph whose edges into the nodes
  4 and 6 are (0,4), (2,4), (7,4), (0,6) and (2,6), the one-layer full-neighbor sampler with
  the seeds 4 and 6 returns one block: its destination ids are 4 and 6, its source ids are
  exactly 4, 6, 0, 2 and 7 with 4 and 6 first, and its edges mapped back to global ids are
  exactly the five edges.
\<close>

theorem C4_edge_correctness:
  assumes "6 < num_nodes g"
    and "set (filter (\<lambda>e. snd e = 4 \<or> snd e = 6) (edge_list g))
           = {(0, 4), (2, 4), (7, 4), (0, 6), (2, 6)}"
  shows "\<exists>b. FullNeighborBlockSampler_sample (FullNeighborBlockSampler_init g 1) [4, 6] = Inr [b]
           \<and> dst_global_ids b = [4, 6]
           \<and> take 2 (src_global_ids b) = [4, 6]
           \<and> set (src_global_ids b) = {4, 6, 0, 2, 7}
           \<and> distinct (src_global_ids b)
           \<and> set (global_edges b) = {(0, 4), (2, 4), (7, 4), (0, 6), (2, 6)}"
proof -
  define sg where "sg = concat (map (\<lambda>v. filter (\<lambda>e. snd e = v) (edge_list g)) [4, 6])"
  define b where "b = to_block sg [4, 6]"
  have d: "dedup [4, 6] = [4, 6]" by (simp add: dedup_def)
  have "gather_full g [4, 6] = Inr sg"
    unfolding sg_def using assms(1) by (intro gather_full_ok) simp
  then have "in_subgraph g [4, 6] = Inr sg" by (simp add: in_subgraph_def d)
  then have s: "FullNeighborBlockSampler_sample (FullNeighborBlockSampler_init g 1) [4, 6] = Inr [b]"
    unfolding b_def by (rule full_sample_one)
  have "set sg = set (filter (\<lambda>e. snd e = 4 \<or> snd e = 6) (edge_list g))"
    unfolding sg_def by auto
  then have set_sg: "set sg = {(0, 4), (2, 4), (7, 4), (0, 6), (2, 6)}"
    by (simp only: assms(2))
  have dst: "dst_global_ids b = [4, 6]" by (simp add: b_def to_block_dst d)
  have "take (length (dst_global_ids b)) (src_global_ids b) = dst_global_ids b"
    unfolding b_def by (rule to_block_prefix)
  then have pre: "take 2 (src_global_ids b) = [4, 6]" by (simp add: dst numeral_2_eq_2)
  have "set (src_global_ids b) = set (dedup [4, 6]) \<union> fst ` set sg"
    by (simp add: b_def to_block_src add_ids_set)
  then have src: "set (src_global_ids b) = {4, 6, 0, 2, 7}"
    unfolding set_sg d by auto
  have "snd ` set sg \<subseteq> set [4, 6]" unfolding set_sg by simp
  then have "global_edges b = sg" unfolding b_def by (rule global_edges_to_block)
  then have ge: "set (global_edges b) = {(0, 4), (2, 4), (7, 4), (0, 6), (2, 6)}"
    using set_sg by simp
  have dis: "distinct (src_global_ids b)" unfolding b_def by (rule to_block_distinct_src)
  from s dst pre src dis ge show ?thesis by blast
qed

text \<open>
  Claim C4 on the example graph of the notebook.
\<close>

theorem C4_witness:
  "6 < num_nodes example_graph
   \<and> set (filter (\<lambda>e. snd e = 4 \<or> snd e = 6) (edge_list example_graph))
        = {(0, 4), (2, 4), (7, 4), (0, 6), (2, 6)}
   \<and> (\<exists>b. FullNeighborBlockSampler_sample (FullNeighborBlockSampler_init example_graph 1) [4, 6] = Inr [b]
           \<and> dst_global_ids b = [4, 6]
           \<and> take 2 (src_global_ids b) = [4, 6]
           \<and> set (src_global_ids b) = {4, 6, 0, 2, 7}
           \<and> distinct (src_global_ids b)
           \<and> set (global_edges b) = {(0, 4), (2, 4), (7, 4), (0, 6), (2, 6)})"
proof -
  have h1: "6 < num_nodes example_graph" by code_simp
  have h2: "set (filter (\<lambda>e. snd e = 4 \<or> snd e = 6) (edge_list example_graph))
        = {(0, 4), (2, 4), (7, 4), (0, 6), (2, 6)}"
    by code_simp
  from C4_edge_correctness [OF h1 h2] h1 h2 show ?thesis by blast
qed

section \<open>No duplicate ids\<close>

text \<open>
  Claim C5 (no duplicate ids).  For every block of a chain returned by either sampler, for
  every seed list (also one with repeated ids), neither the source ids nor the destination
  ids contain a repeated id.
\<close>

theorem C5_distinct:
  "(FullNeighborBlockSampler_sample s seeds = Inr chain \<longrightarrow>
      (\<forall>b \<in> set chain. distinct (src_global_ids b) \<and> distinct (dst_global_ids b)))
   \<and> (NeighborSampler_sample ns seeds' r = Inr (chain', r') \<longrightarrow>
      (\<forall>b \<in> set chain'. distinct (src_global_ids b) \<and> distinct (dst_global_ids b)))"
proof (intro conjI impI ballI)
  fix b
  assume "FullNeighborBlockSampler_sample s seeds = Inr chain" and b: "b \<in> set chain"
  then have "built_from seeds (rev chain)"
    using full_sample_built full_built_from by blast
  with b obtain sg x where "b = to_block sg x"
    using built_from_member [of seeds "rev chain" b] by auto
  then show "distinct (src_global_ids b)" "distinct (dst_global_ids b)"
    by (simp_all add: to_block_distinct_src to_block_distinct_dst)
next
  fix b
  assume "NeighborSampler_sample ns seeds' r = Inr (chain', r')" and b: "b \<in> set chain'"
  then have "built_from seeds' (rev chain')"
    using neighbor_sample_built neighbor_built_from by blast
  with b obtain sg x where "b = to_block sg x"
    using built_from_member [of seeds' "rev chain'" b] by auto
  then show "distinct (src_global_ids b)" "distinct (dst_global_ids b)"
    by (simp_all add: to_block_distinct_src to_block_distinct_dst)
qed

text \<open>
  Claim C5 on a seed list with repeated ids for the full-neighbor sampler, and on the first
  block of the run of the notebook for the neighbor sampler.
\<close>

theorem C5_witness:
  "FullNeighborBlockSampler_sample (FullNeighborBlockSampler_init example_graph 1) [6, 4, 6, 6, 4]
     = Inr [\<lparr> src_global_ids = [6, 4, 0, 2, 7], dst_global_ids = [6, 4],
              block_edges = [(2, 0), (3, 0), (2, 1), (3, 1), (4, 1)] \<rparr>]
   \<and> NeighborSampler_sample example_neighbor_sampler [4, 6] example_tape
       = Inr (example_neighbor_chain, [])
   \<and> distinct [6 :: nat, 4, 0, 2, 7] \<and> distinct [6 :: nat, 4]
   \<and> distinct (src_global_ids (example_neighbor_chain ! 0))
   \<and> distinct (dst_global_ids (example_neighbor_chain ! 0))"
proof -
  have m2: "example_neighbor_chain ! 0 \<in> set example_neighbor_chain"
    by (simp add: example_neighbor_chain_def)
  from C5_distinct [of "FullNeighborBlockSampler_init example_graph 1" "[6, 4, 6, 6, 4]"
      "[\<lparr> src_global_ids = [6, 4, 0, 2, 7], dst_global_ids = [6, 4],
              block_edges = [(2, 0), (3, 0), (2, 1), (3, 1), (4, 1)] \<rparr>]"
      example_neighbor_sampler "[4, 6]" example_tape example_neighbor_chain "[]"]
    example_duplicate_seeds example_neighbor_sample m2
  show ?thesis by simp
qed

section \<open>Empty seed set\<close>

text \<open>
  Claim C6 (empty seed set).  With an empty seed list both samplers succeed and return a
  chain of L blocks, each without destination nodes (and without source nodes and edges);
  L is the number of layers, respectively the length of the fanout list.  The neighbor
  sampler draws nothing from the random source.
\<close>

theorem C6_empty_seeds:
  "FullNeighborBlockSampler_sample s []
     = Inr (replicate (nat (num_layers s))
              \<lparr> src_global_ids = [], dst_global_ids = [], block_edges = [] \<rparr>)
   \<and> NeighborSampler_sample ns [] r
     = Inr (replicate (length (num_fanouts ns))
              \<lparr> src_global_ids = [], dst_global_ids = [], block_edges = [] \<rparr>, r)"
  by (simp add: FullNeighborBlockSampler_sample_def NeighborSampler_sample_def
      full_loop_Nil neighbor_loop_Nil)

text \<open>
  Claim C6 on the two samplers of the notebook.
\<close>

theorem C6_witness:
  "FullNeighborBlockSampler_sample example_full_sampler []
     = Inr [\<lparr> src_global_ids = [], dst_global_ids = [], block_edges = [] \<rparr>,
            \<lparr> src_global_ids = [], dst_global_ids = [], block_edges = [] \<rparr>]
   \<and> NeighborSampler_sample example_neighbor_sampler [] example_tape
     = Inr ([\<lparr> src_global_ids = [], dst_global_ids = [], block_edges = [] \<rparr>,
             \<lparr> src_global_ids = [], dst_global_ids = [], block_edges = [] \<rparr>], example_tape)"
  using C6_empty_seeds [of example_full_sampler example_neighbor_sampler example_tape]
  by (simp add: example_full_sampler_def example_neighbor_sampler_def
      FullNeighborBlockSampler_init_def numeral_2_eq_2)

section \<open>Construction of the neighbor sampler\<close>

text \<open>
  Claim C7 as stated fails: the constructor accepts the fanout list \<open>[0, -1]\<close>.
\<close>

theorem C7_counterexample:
  "NeighborSampler_init example_graph [0, - 1]
     = Inr \<lparr> nbr_g = example_graph, num_fanouts = [0, - 1] \<rparr>
   \<and> NeighborSampler_init example_graph [0, - 1] \<noteq> Inl InvalidFanoutConfig"
  by (simp add: NeighborSampler_init_def)

text \<open>
  Claim C7, as amended.  The constructor of the neighbor sampler checks nothing: it succeeds
  for every fanout list and stores it unchanged.  The sampler has no layer count of its own:
  a chain that \<^verbatim>\<open>sample\<close> returns has as many blocks as the fanout list has entries, so
  the two cannot disagree.
\<close>

theorem C7_amended:
  "NeighborSampler_init g fanouts = Inr \<lparr> nbr_g = g, num_fanouts = fanouts \<rparr>
   \<and> (NeighborSampler_sample \<lparr> nbr_g = g, num_fanouts = fanouts \<rparr> seeds r = Inr (chain, r')
        \<longrightarrow> length chain = length fanouts)"
proof
  show "NeighborSampler_init g fanouts = Inr \<lparr> nbr_g = g, num_fanouts = fanouts \<rparr>"
    by (simp add: NeighborSampler_init_def)
  show "NeighborSampler_sample \<lparr> nbr_g = g, num_fanouts = fanouts \<rparr> seeds r = Inr (chain, r')
        \<longrightarrow> length chain = length fanouts"
    using neighbor_sample_built [of "\<lparr> nbr_g = g, num_fanouts = fanouts \<rparr>" seeds r chain r']
    by simp
qed

text \<open>
  The amended claim C7 on the neighbor sampler of the notebook.
\<close>

theorem C7_witness:
  "NeighborSampler_init example_graph [2, 2] = Inr example_neighbor_sampler
   \<and> NeighborSampler_sample example_neighbor_sampler [4, 6] example_tape
       = Inr (example_neighbor_chain, [])
   \<and> length example_neighbor_chain = length [2 :: int, 2]"
  using C7_amended [of example_graph "[2, 2]" "[4, 6]" example_tape example_neighbor_chain "[]"]
    example_neighbor_sample
  by (simp add: example_neighbor_sampler_def)

section \<open>Idempotence of full sampling\<close>



section \<open>Inference consistency\<close>

lemma batch_output:
  assumes wf: "wf_graph g" and len: "length h = num_nodes g"
    and dS: "distinct S" and rS: "\<forall>v \<in> set S. v < num_nodes g"
  shows "\<exists>b. FullNeighborBlockSampler_sample (FullNeighborBlockSampler_init g 1) S = Inr [b]
           \<and> set (src_global_ids b) \<subseteq> {..<num_nodes g}
           \<and> take (length S) (src_global_ids b) = S
           \<and> index_rows h (src_global_ids b) = Inr (map (\<lambda>i. h ! i) (src_global_ids b))
           \<and> propagate b (map (\<lambda>i. h ! i) (src_global_ids b)) conv
                = Inr (map (node_transform conv g h) S)"
proof -
  define sg where "sg = concat (map (\<lambda>v. filter (\<lambda>e. snd e = v) (edge_list g)) S)"
  define b where "b = to_block sg S"
  have "in_subgraph g S = Inr sg" unfolding sg_def using dS rS by (rule in_subgraph_distinct)
  then have s: "FullNeighborBlockSampler_sample (FullNeighborBlockSampler_init g 1) S = Inr [b]"
    unfolding b_def by (rule full_sample_one)
  have sub_e: "set sg \<subseteq> set (edge_list g)" unfolding sg_def by auto
  have sub_d: "snd ` set sg \<subseteq> set S" unfolding sg_def by auto
  have "set (src_global_ids b) = set S \<union> fst ` set sg"
    by (simp add: b_def to_block_src add_ids_set dedup_set)
  moreover have "fst e < num_nodes g" if "e \<in> set sg" for e
    using wf_graph_fst [OF wf] that sub_e by blast
  ultimately have rng: "set (src_global_ids b) \<subseteq> {..<num_nodes g}"
    using rS by auto
  then have "list_all (\<lambda>i. i < length h) (src_global_ids b)"
    by (auto simp: list_all_iff len)
  then have ix: "index_rows h (src_global_ids b) = Inr (map (\<lambda>i. h ! i) (src_global_ids b))"
    by (simp add: index_rows_def)
  have pre: "take (length S) (src_global_ids b) = S"
    using to_block_prefix [of sg S] by (simp add: b_def to_block_dst dedup_id dS)
  have "propagate b (map (\<lambda>i. h ! i) (src_global_ids b)) conv
          = Inr (map (\<lambda>v. conv (h ! v) (map (\<lambda>e. h ! fst e) (filter (\<lambda>e. snd e = v) sg))) (dedup S))"
    unfolding b_def using sub_d by (rule block_propagate)
  also have "dedup S = S" using dS by (rule dedup_id)
  also have "map (\<lambda>v. conv (h ! v) (map (\<lambda>e. h ! fst e) (filter (\<lambda>e. snd e = v) sg))) S
               = map (node_transform conv g h) S"
  proof (rule map_cong [OF refl])
    fix v assume "v \<in> set S"
    with dS have "filter (\<lambda>e. snd e = v) sg = filter (\<lambda>e. snd e = v) (edge_list g)"
      unfolding sg_def by (rule filter_in_edges)
    then show "conv (h ! v) (map (\<lambda>e. h ! fst e) (filter (\<lambda>e. snd e = v) sg))
                 = node_transform conv g h v"
      by (simp add: node_transform_def)
  qed
  finally have "propagate b (map (\<lambda>i. h ! i) (src_global_ids b)) conv
                  = Inr (map (node_transform conv g h) S)" .
  with s rng pre ix show ?thesis by blast
qed

lemma inference_batches_eq:
  assumes wf: "wf_graph g" and len: "length h = num_nodes g"
  shows "inference_batches (FullNeighborBlockSampler_init g 1) conv h [0..<num_nodes g] bs starts
           = Inr (map (\<lambda>s. map (node_transform conv g h) (take bs (drop s [0..<num_nodes g]))) starts)"
proof (induction starts)
  case Nil
  show ?case by simp
next
  case (Cons s starts)
  let ?S = "take bs (drop s [0..<num_nodes g])"
  have dS: "distinct ?S" by (simp add: distinct_take distinct_drop)
  have "set ?S \<subseteq> set [0..<num_nodes g]"
    using set_take_subset set_drop_subset by (rule subset_trans)
  then have rS: "\<forall>v \<in> set ?S. v < num_nodes g" by auto
  from batch_output [OF wf len dS rS, of conv] obtain b where
    "FullNeighborBlockSampler_sample (FullNeighborBlockSampler_init g 1) ?S = Inr [b]"
    "index_rows h (src_global_ids b) = Inr (map (\<lambda>i. h ! i) (src_global_ids b))"
    "propagate b (map (\<lambda>i. h ! i) (src_global_ids b)) conv = Inr (map (node_transform conv g h) ?S)"
    by blast
  with Cons.IH show ?case by simp
qed

lemma chunks_concat:
  "concat (map (\<lambda>s. take bs (drop s xs)) (map (\<lambda>i. i * bs) [0..<m])) = take (m * bs) xs"
proof (induction m)
  case 0
  show ?case by simp
next
  case (Suc m)
  have "take (m * bs + bs) xs = take (m * bs) xs @ take bs (drop (m * bs) xs)"
    by (rule take_add)
  with Suc show ?case by (simp add: add.commute)
qed

lemma ceil_div_covers:
  assumes "0 < (bs :: nat)"
  shows "n \<le> (n + bs - 1) div bs * bs"
proof -
  have "(n + bs - 1) div bs * bs + (n + bs - 1) mod bs = n + bs - 1" by simp
  moreover have "(n + bs - 1) mod bs < bs" using assms by simp
  ultimately show ?thesis by linarith
qed

lemma ceil_div_pos:
  assumes "0 < (bs :: nat)" and "0 < n"
  shows "0 < (n + bs - 1) div bs"
proof -
  from assms have "bs \<le> n + bs - 1" by simp
  with assms(1) show ?thesis by (simp add: div_greater_zero_iff)
qed

lemma whole_graph_transform_eq:
  assumes wf: "wf_graph g" and len: "length h = num_nodes g"
  shows "whole_graph_transform conv g h = Inr (map (node_transform conv g h) [0..<num_nodes g])"
proof -
  let ?N = "num_nodes g"
  define sg where "sg = concat (map (\<lambda>v. filter (\<lambda>e. snd e = v) (edge_list g)) [0..<?N])"
  have dS: "distinct [0..<?N]" by simp
  have rS: "\<forall>v \<in> set [0..<?N]. v < ?N" by simp
  have isg: "in_subgraph g [0..<?N] = Inr sg"
    unfolding sg_def using dS rS by (rule in_subgraph_distinct)
  from batch_output [OF wf len dS rS, of conv] obtain b where
    s: "FullNeighborBlockSampler_sample (FullNeighborBlockSampler_init g 1) [0..<?N] = Inr [b]"
    and rng: "set (src_global_ids b) \<subseteq> {..<?N}"
    and pr: "propagate b (map (\<lambda>i. h ! i) (src_global_ids b)) conv
               = Inr (map (node_transform conv g h) [0..<?N])"
    by blast
  from s full_sample_one [OF isg] have b: "b = to_block sg [0..<?N]" by simp
  have "set (map fst sg) \<subseteq> set (dedup [0..<?N])"
    using rng by (auto simp: b to_block_src add_ids_set dedup_set)
  then have "src_global_ids b = dedup [0..<?N]"
    unfolding b to_block_src by (rule add_ids_subset)
  then have src: "src_global_ids b = [0..<?N]" by (simp add: dedup_id)
  have "map (\<lambda>i. h ! i) [0..<?N] = h" using len map_nth [of h] by simp
  with pr src have "propagate b h conv = Inr (map (node_transform conv g h) [0..<?N])" by simp
  with isg b show ?thesis by (simp add: whole_graph_transform_def)
qed

text \<open>
  Claim C9 (inference consistency).  For a one-layer model on a graph that has at least one
  node and whose edges all join nodes of the graph, with one feature row per node and a
  positive batch size, the batched layer-wise inference returns what the layer transform
  returns when it is applied once to the in-subgraph of the whole graph, without batching:
  for every node the layer's output on the node's own feature and on the features of its
  in-neighbours.
\<close>

theorem C9_inference_consistency:
  assumes "wf_graph g" and "length h = num_nodes g" and "0 < num_nodes g" and "0 < batch_size"
  shows "inference_with_sagenet \<lparr> convs = [conv] \<rparr> g h batch_size = whole_graph_transform conv g h
         \<and> whole_graph_transform conv g h = Inr (map (node_transform conv g h) [0..<num_nodes g])"
proof -
  let ?N = "num_nodes g"
  let ?bs = "nat batch_size"
  let ?m = "(?N + ?bs - 1) div ?bs"
  let ?starts = "map (\<lambda>i. i * ?bs) [0..<?m]"
  let ?F = "node_transform conv g h"
  let ?out = "map (\<lambda>s. map ?F (take ?bs (drop s [0..<?N]))) ?starts"
  have bs: "0 < ?bs" using assms(4) by simp
  have r: "py_range0 ?N batch_size = Inr ?starts"
    using assms(4) by (simp add: py_range0_def)
  have ib: "inference_batches (FullNeighborBlockSampler_init g 1) conv h [0..<?N] ?bs ?starts = Inr ?out"
    using assms(1,2) by (rule inference_batches_eq)
  have "0 < ?m" using bs assms(3) by (rule ceil_div_pos)
  then have ne: "?out \<noteq> []" by simp
  have "concat ?out = map ?F (concat (map (\<lambda>s. take ?bs (drop s [0..<?N])) ?starts))"
    by (simp add: map_concat comp_def)
  also have "concat (map (\<lambda>s. take ?bs (drop s [0..<?N])) ?starts) = take (?m * ?bs) [0..<?N]"
    by (rule chunks_concat)
  also have "take (?m * ?bs) [0..<?N] = [0..<?N]"
    using ceil_div_covers [OF bs, of ?N] by simp
  finally have cc: "concat ?out = map ?F [0..<?N]" .
  have "inference_with_sagenet \<lparr> convs = [conv] \<rparr> g h batch_size = Inr (concat ?out)"
    using r ib ne by (simp add: inference_with_sagenet_def Let_def del: upt_Suc)
  with cc whole_graph_transform_eq [OF assms(1,2), of conv] show ?thesis by simp
qed

text \<open>
  Claim C9 on the example graph of the notebook with batch size 2, as in the call the
  notebook makes.
\<close>

theorem C9_witness:
  "wf_graph example_graph
   \<and> length example_features = num_nodes example_graph
   \<and> 0 < num_nodes example_graph
   \<and> inference_with_sagenet \<lparr> convs = [example_conv] \<rparr> example_graph example_features 2
       = whole_graph_transform example_conv example_graph example_features
   \<and> inference_with_sagenet \<lparr> convs = [example_conv] \<rparr> example_graph example_features 2
       = Inr [46, 110, 214, 316, 409, 504, 602, 704, 823, 929, 1009, 1117]"
proof -
  have h1: "wf_graph example_graph" by code_simp
  have h2: "length example_features = num_nodes example_graph" by code_simp
  have h3: "0 < num_nodes example_graph" by code_simp
  have h4: "(0 :: int) < 2" by simp
  have v: "map (node_transform example_conv example_graph example_features) [0..<num_nodes example_graph]
             = [46, 110, 214, 316, 409, 504, 602, 704, 823, 929, 1009, 1117]"
    by code_simp
  from C9_inference_consistency [OF h1 h2 h3 h4, of example_conv] v h1 h2 h3
  show ?thesis by simp
qed

section \<open>Each block feeds the next\<close>

text \<open>
  Claim C10.  For every chain returned by either sampler and every \<open>k\<close> with
  \<open>k + 1 < L\<close>, the destination ids of \<open>chain[k]\<close> are the source ids of \<open>chain[k+1]\<close>,
  element for element.
\<close>

theorem C10_link:
  "(FullNeighborBlockSampler_sample s seeds = Inr chain \<longrightarrow>
      (\<forall>k. Suc k < length chain \<longrightarrow>
         dst_global_ids (chain ! k) = src_global_ids (chain ! Suc k)))
   \<and> (NeighborSampler_sample ns seeds' r = Inr (chain', r') \<longrightarrow>
      (\<forall>k. Suc k < length chain' \<longrightarrow>
         dst_global_ids (chain' ! k) = src_global_ids (chain' ! Suc k)))"
proof (intro conjI impI allI)
  fix k
  assume "FullNeighborBlockSampler_sample s seeds = Inr chain" and k: "Suc k < length chain"
  then have "built_from seeds (rev chain)"
    using full_sample_built full_built_from by blast
  then show "dst_global_ids (chain ! k) = src_global_ids (chain ! Suc k)"
    using k by (rule chain_link)
next
  fix k
  assume "NeighborSampler_sample ns seeds' r = Inr (chain', r')" and k: "Suc k < length chain'"
  then have "built_from seeds' (rev chain')"
    using neighbor_sample_built neighbor_built_from by blast
  then show "dst_global_ids (chain' ! k) = src_global_ids (chain' ! Suc k)"
    using k by (rule chain_link)
qed

text \<open>
  Claim C10 on the two runs of the notebook.
\<close>

theorem C10_witness:
  "FullNeighborBlockSampler_sample example_full_sampler [4, 6] = Inr example_full_chain
   \<and> NeighborSampler_sample example_neighbor_sampler [4, 6] example_tape
       = Inr (example_neighbor_chain, [])
   \<and> Suc 0 < length example_full_chain \<and> Suc 0 < length example_neighbor_chain
   \<and> dst_global_ids (example_full_chain ! 0) = src_global_ids (example_full_chain ! Suc 0)
   \<and> dst_global_ids (example_neighbor_chain ! 0) = src_global_ids (example_neighbor_chain ! Suc 0)"
proof -
  have l1: "Suc 0 < length example_full_chain" by (simp add: example_full_chain_def)
  have l2: "Suc 0 < length example_neighbor_chain" by (simp add: example_neighbor_chain_def)
  from C10_link [of example_full_sampler "[4, 6]" example_full_chain
      example_neighbor_sampler "[4, 6]" example_tape example_neighbor_chain "[]"]
    example_full_sample example_neighbor_sample l1 l2
  show ?thesis by blast
qed

end
